theory Spec2Isabelle
  imports Complex_Main
begin

section \<open>Errors\<close>

text \<open>
  Every exception the modelled Python code can raise is a value of this type; a function
  that can raise returns \<open>error + 'a\<close>, with \<open>Inl\<close> for the exception.
  Python integers are \<open>int\<close> (floor division and a remainder with the sign of the
  divisor, as \<open>div\<close> and \<open>mod\<close> on \<open>int\<close>); floating-point values are idealised as
  \<open>real\<close>, so rounding is not modelled.
\<close>

datatype error =
    AssertionError
  | ZeroDivisionError
  | IndexError
  | ValueError
  | AttributeError
  | AxisError
  | UnboundLocalError
  | OutOfRangeError
  | InvalidArgumentError
  | DataLossError
  | TypeError

section \<open>utils.py: the network builder, on tensor shapes\<close>

text \<open>
  A tensor is represented by its static shape, the list of its dimensions. The
  TensorFlow operations called by \<open>my_model_fn\<close> are modelled by their shape rules.
\<close>

type_synonym shape = "int list"

definition expand_dims :: "shape \<Rightarrow> nat \<Rightarrow> error + shape" where
  "expand_dims s axis =
     (if axis \<le> length s then Inr (take axis s @ [1] @ drop axis s) else Inl ValueError)"

definition squeeze :: "shape \<Rightarrow> nat \<Rightarrow> error + shape" where
  "squeeze s axis =
     (if axis < length s \<and> s ! axis = 1 then Inr (take axis s @ drop (Suc axis) s)
      else Inl ValueError)"

text \<open>
  \<open>gen_nn_ops.conv2d_backprop_input\<close> with padding \<open>SAME\<close> and format \<open>NHWC\<close>: the result
  has the shape \<open>input_sizes\<close>; the gradient \<open>out_backprop\<close> must have the batch size of
  \<open>input_sizes\<close>, the filter \<open>[height, width, in_channels, out_channels]\<close> must agree with
  both on the channels, and each spatial extent of \<open>out_backprop\<close> must be the one the
  forward convolution produces, \<open>ceil (input / stride)\<close>.
\<close>

definition conv2d_backprop_input :: "shape \<Rightarrow> shape \<Rightarrow> shape \<Rightarrow> int list \<Rightarrow> error + shape" where
  "conv2d_backprop_input input_sizes filter_shape out_backprop strides =
     (if length input_sizes \<noteq> 4 \<or> length filter_shape \<noteq> 4 \<or> length out_backprop \<noteq> 4
         \<or> length strides \<noteq> 4
      then Inl InvalidArgumentError
      else if list_ex (\<lambda>d. d < 0) input_sizes \<or> list_ex (\<lambda>d. d < 0) filter_shape
      then Inl InvalidArgumentError
      else if strides ! 1 \<le> 0 \<or> strides ! 2 \<le> 0
      then Inl InvalidArgumentError
      else if out_backprop ! 0 \<noteq> input_sizes ! 0
         \<or> filter_shape ! 2 \<noteq> input_sizes ! 3
         \<or> filter_shape ! 3 \<noteq> out_backprop ! 3
      then Inl InvalidArgumentError
      else if out_backprop ! 1 \<noteq> (input_sizes ! 1 + strides ! 1 - 1) div strides ! 1
         \<or> out_backprop ! 2 \<noteq> (input_sizes ! 2 + strides ! 2 - 1) div strides ! 2
      then Inl InvalidArgumentError
      else Inr input_sizes)"

text \<open>
  \<open>conv1d_transpose\<close> with the defaults its only caller uses (\<open>padding="SAME"\<close>,
  \<open>data_format="NWC"\<close>, so \<open>axis = 2\<close>, \<open>spatial_start_dim = 1\<close> and
  \<open>strides = [1, 1, stride, 1]\<close>), and \<open>output_shape\<close> a Python list.
\<close>

definition conv1d_transpose :: "shape \<Rightarrow> shape \<Rightarrow> shape \<Rightarrow> int \<Rightarrow> error + shape" where
  "conv1d_transpose val filter_shape output_shape stride =
     (if length output_shape \<noteq> 3 then Inl ValueError
      else if length val \<noteq> 3 \<or> length filter_shape \<noteq> 3 then Inl ValueError
      else if val ! 2 \<noteq> filter_shape ! 2 then Inl ValueError
      else if filter_shape ! 1 \<noteq> output_shape ! 2 then Inl ValueError
      else
        (case expand_dims val 1 of
           Inl e \<Rightarrow> Inl e
         | Inr val4 \<Rightarrow>
            (case conv2d_backprop_input (take 1 output_shape @ [1] @ drop 1 output_shape)
                    (1 # filter_shape) val4 [1, 1, stride, 1] of
               Inl e \<Rightarrow> Inl e
             | Inr result \<Rightarrow> squeeze result 1)))"

text \<open>\<open>tf.layers.dense\<close>: the last dimension becomes \<open>units\<close>; the input has rank 2 at least.\<close>

definition dense :: "shape \<Rightarrow> int \<Rightarrow> error + shape" where
  "dense inputs units =
     (if length inputs < 2 \<or> units < 0 then Inl ValueError
      else Inr (butlast inputs @ [units]))"

text \<open>
  \<open>tf.layers.conv1d (inputs, filters, kernel_size)\<close> with stride 1 and the default padding
  \<open>valid\<close>, on \<open>[batch, width, channels]\<close>.
\<close>

definition layers_conv1d :: "shape \<Rightarrow> int \<Rightarrow> int \<Rightarrow> error + shape" where
  "layers_conv1d inputs filters kernel_size =
     (if length inputs \<noteq> 3 \<or> filters < 0 \<or> kernel_size \<le> 0 then Inl ValueError
      else if inputs ! 1 - kernel_size + 1 < 0 then Inl ValueError
      else Inr [inputs ! 0, inputs ! 1 - kernel_size + 1, filters])"

text \<open>The first loop of \<open>my_model_fn\<close>: one dense layer for each entry of \<open>fc_filters\<close>.\<close>

fun fc_loop :: "shape \<Rightarrow> int list \<Rightarrow> error + shape" where
  "fc_loop fc [] = Inr fc"
| "fc_loop fc (filters # rest) =
     (case dense fc filters of
        Inl e \<Rightarrow> Inl e
      | Inr fc' \<Rightarrow> fc_loop fc' rest)"

text \<open>
  The second loop of \<open>my_model_fn\<close>, over \<open>zip(tconv_dims, tconv_filters)\<close>. Its state is
  \<open>up\<close>, \<open>feature_dim\<close> and \<open>last_filter\<close>; beside the final \<open>up\<close> it returns the stride of
  every stage, in order. \<open>up_size % feature_dim\<close> raises when \<open>feature_dim\<close> is 0.
\<close>

fun tconv_loop :: "shape \<Rightarrow> int \<Rightarrow> int \<Rightarrow> int \<Rightarrow> (int \<times> int) list \<Rightarrow> error + (shape \<times> int list)" where
  "tconv_loop up batch_size feature_dim last_filter [] = Inr (up, [])"
| "tconv_loop up batch_size feature_dim last_filter ((up_size, up_filter) # rest) =
     (if feature_dim = 0 then Inl ZeroDivisionError
      else if up_size mod feature_dim \<noteq> 0 then Inl AssertionError
      else
        (let stride = up_size div feature_dim;
             f = [3, up_filter, last_filter]
         in if up_filter < 0 \<or> last_filter < 0 then Inl ValueError
            else
              (case conv1d_transpose up f [batch_size, up_size, up_filter] stride of
                 Inl e \<Rightarrow> Inl e
               | Inr up' \<Rightarrow>
                  (case tconv_loop up' batch_size up_size up_filter rest of
                     Inl e \<Rightarrow> Inl e
                   | Inr (out, strides) \<Rightarrow> Inr (out, stride # strides)))))"

text \<open>
  \<open>my_model_fn\<close>: the shape of the returned tensor, with the strides of the stages.
  \<open>fc_filters[-1]\<close> raises on an empty \<open>fc_filters\<close>.
\<close>

definition my_model_fn :: "shape \<Rightarrow> int \<Rightarrow> int list \<Rightarrow> int list \<Rightarrow> int list \<Rightarrow> error + (shape \<times> int list)" where
  "my_model_fn features batch_size fc_filters tconv_dims tconv_filters =
     (case fc_loop features fc_filters of
        Inl e \<Rightarrow> Inl e
      | Inr fc \<Rightarrow>
         (case expand_dims fc 2 of
            Inl e \<Rightarrow> Inl e
          | Inr up0 \<Rightarrow>
             (if fc_filters = [] then Inl IndexError
              else
                (case tconv_loop up0 batch_size (last fc_filters) 1 (zip tconv_dims tconv_filters) of
                   Inl e \<Rightarrow> Inl e
                 | Inr (up, strides) \<Rightarrow>
                    (case layers_conv1d up 1 1 of
                       Inl e \<Rightarrow> Inl e
                     | Inr fin \<Rightarrow>
                        (case squeeze fin 2 of
                           Inl e \<Rightarrow> Inl e
                         | Inr out \<Rightarrow> Inr (out, strides)))))))"

text \<open>
  The feature dimension entering stage \<open>i\<close>: \<open>fc_filters[-1]\<close> for the first stage, the
  width of the stage before it otherwise.
\<close>

definition feature_dim_at :: "int list \<Rightarrow> int list \<Rightarrow> nat \<Rightarrow> int" where
  "feature_dim_at fc_filters tconv_dims i =
     (if i = 0 then last fc_filters else tconv_dims ! (i - 1))"

text \<open>
  A valid architecture, as the data model of the specification describes it: positive
  widths and filter counts, as many filter counts as stages, and every stage width a
  multiple of the feature dimension that enters the stage.
\<close>

definition valid_spec :: "int list \<Rightarrow> int list \<Rightarrow> int list \<Rightarrow> bool" where
  "valid_spec fc_filters tconv_dims tconv_filters =
     (fc_filters \<noteq> [] \<and> list_all (\<lambda>x. 0 < x) fc_filters
      \<and> list_all (\<lambda>x. 0 < x) tconv_dims \<and> list_all (\<lambda>x. 0 < x) tconv_filters
      \<and> length tconv_filters = length tconv_dims
      \<and> list_all (\<lambda>i. tconv_dims ! i mod feature_dim_at fc_filters tconv_dims i = 0)
           [0..<length tconv_dims])"

text \<open>
  Two auxiliary functions for the proofs about \<open>tconv_loop\<close>: the condition under which
  every stage of the loop passes its assertion, and the strides the loop computes then.
\<close>

fun chain_ok :: "int \<Rightarrow> (int \<times> int) list \<Rightarrow> bool" where
  "chain_ok fd [] = True"
| "chain_ok fd ((u, f) # rest) = (0 < u \<and> 0 \<le> f \<and> u mod fd = 0 \<and> chain_ok u rest)"

fun chain_strides :: "int \<Rightarrow> (int \<times> int) list \<Rightarrow> int list" where
  "chain_strides fd [] = []"
| "chain_strides fd ((u, f) # rest) = u div fd # chain_strides u rest"

section \<open>The numpy operations used by the hooks\<close>

text \<open>
  A value computed by numpy is a number or \<open>nan\<close>; \<open>np.mean\<close> of an empty sequence is
  \<open>nan\<close> (with a warning, not an exception).
\<close>

datatype npval = NaN | Val real

definition np_mean :: "real list \<Rightarrow> npval" where
  "np_mean xs = (if xs = [] then NaN else Val (sum_list xs / real (length xs)))"

text \<open>A two-dimensional array is the list of its rows.\<close>

type_synonym matrix = "real list list"

text \<open>
  Elementwise subtraction of two rows with numpy's broadcasting: two extents are
  compatible when they are equal or one of them is 1.
\<close>

definition sub_rows :: "real list \<Rightarrow> real list \<Rightarrow> error + real list" where
  "sub_rows xs ys =
     (if length xs = length ys then Inr (map2 (\<lambda>x y. x - y) xs ys)
      else if length xs = 1 then Inr (map (\<lambda>y. hd xs - y) ys)
      else if length ys = 1 then Inr (map (\<lambda>x. x - hd ys) xs)
      else Inl ValueError)"

section \<open>network_helper.py: the hooks\<close>

text \<open>
  What a hook sees of the session. \<open>train_loss\<close> is the value \<open>sess.run (self.loss)\<close>
  returns to the training hook. The validation data set is a finite sequence; an element
  either yields a batch (its loss, its truth array and its prediction array) or fails
  with an error when it is read. \<open>cursor\<close> is what is left of the sequence for the
  iterator.
\<close>

record batch =
  b_loss :: real
  b_truth :: matrix
  b_pred :: matrix

datatype stream_elem = Elem batch | Broken error

record session =
  train_loss :: real
  valid_data :: "stream_elem list"
  cursor :: "stream_elem list"

text \<open>\<open>sess.run (self.valid_init_op)\<close> puts the iterator at the start of the validation data.\<close>

definition run_valid_init_op :: "session \<Rightarrow> session" where
  "run_valid_init_op s = s\<lparr>cursor := valid_data s\<rparr>"

text \<open>
  \<open>sess.run ([self.loss, self.truth, self.pred])\<close> evaluates the three tensors on the next
  batch, and raises \<open>OutOfRangeError\<close> when the iterator is at its end.
\<close>

definition sess_run_batch :: "session \<Rightarrow> (error + batch) \<times> session" where
  "sess_run_batch s =
     (case cursor s of
        [] \<Rightarrow> (Inl OutOfRangeError, s)
      | Elem b # rest \<Rightarrow> (Inr b, s\<lparr>cursor := rest\<rparr>)
      | Broken e # rest \<Rightarrow> (Inl e, s\<lparr>cursor := rest\<rparr>))"

text \<open>
  What the hooks do to the outside: the values they read, the lines they print and the
  summaries they hand to the writer, in order. The text of a printed line and the
  duration it reports are not modelled.
\<close>

datatype event =
    LossRead real
  | TrainPrinted int real
  | ValidInit
  | EvalPrinted int npval
  | ScalarLogged string npval int
  | CurvesLogged string "(real list \<times> real list \<times> real) list" int

datatype writer = SummaryWriter

text \<open>\<open>HookValueSummary.log\<close>; the writer is \<open>None\<close> by default, and \<open>None\<close> has no \<open>add_summary\<close>.\<close>

definition HookValueSummary_log :: "string \<Rightarrow> npval \<Rightarrow> int \<Rightarrow> writer option \<Rightarrow> error + event list" where
  "HookValueSummary_log summary_name val stp wr =
     (case wr of
        None \<Rightarrow> Inl AttributeError
      | Some w \<Rightarrow> Inr [ScalarLogged summary_name val stp])"

text \<open>
  The loop of \<open>HookCurvePlotSummary.log\<close> over \<open>range (curve_num)\<close>: subplot \<open>i + 1\<close> of a
  grid of 2 by 3, the rows \<open>fig_idx[i]\<close> of \<open>truth\<close> and of \<open>pred\<close>, and the sum of their
  squared differences.
\<close>

fun plot_curves :: "matrix \<Rightarrow> matrix option \<Rightarrow> nat list \<Rightarrow> nat list \<Rightarrow> error + (real list \<times> real list \<times> real) list" where
  "plot_curves truth pred fig_idx [] = Inr []"
| "plot_curves truth pred fig_idx (i # rest) =
     (if 6 \<le> i then Inl ValueError
      else if length fig_idx \<le> i then Inl IndexError
      else if length truth \<le> fig_idx ! i then Inl IndexError
      else
        (case pred of
           None \<Rightarrow> Inl TypeError
         | Some p \<Rightarrow>
            (if length p \<le> fig_idx ! i then Inl IndexError
             else
               (case sub_rows (truth ! (fig_idx ! i)) (p ! (fig_idx ! i)) of
                  Inl e \<Rightarrow> Inl e
                | Inr d \<Rightarrow>
                   (case plot_curves truth pred fig_idx rest of
                      Inl e \<Rightarrow> Inl e
                    | Inr curves \<Rightarrow>
                       Inr ((truth ! (fig_idx ! i), p ! (fig_idx ! i), sum_list (map (\<lambda>x. x * x) d))
                            # curves))))))"

text \<open>
  \<open>HookCurvePlotSummary.log\<close>. \<open>truth.shape\<close> raises when \<open>truth\<close> is \<open>None\<close>. The
  permutation drawn by \<open>np.random.permutation (fig_num)\<close> is the parameter \<open>permutation\<close>.
\<close>

definition HookCurvePlotSummary_log :: "string \<Rightarrow> matrix option \<Rightarrow> matrix option \<Rightarrow> int \<Rightarrow> writer option \<Rightarrow> int \<Rightarrow> (nat \<Rightarrow> nat list) \<Rightarrow> error + event list" where
  "HookCurvePlotSummary_log summary_name truth pred stp wr curve_num permutation =
     (case truth of
        None \<Rightarrow> Inl AttributeError
      | Some t \<Rightarrow>
         (let fig_num = length t;
              fig_idx = permutation fig_num
          in case plot_curves t pred fig_idx [0..<nat curve_num] of
               Inl e \<Rightarrow> Inl e
             | Inr curves \<Rightarrow>
                (case wr of
                   None \<Rightarrow> Inl AttributeError
                 | Some w \<Rightarrow> Inr [CurvesLogged summary_name curves stp])))"

text \<open>
  The classes. \<open>Hook.__init__\<close> sets \<open>step\<close> to -1. The tensors a hook holds (\<open>loss\<close>,
  \<open>truth\<close>, \<open>pred\<close>, \<open>valid_init_op\<close>) are handles into the session and are not fields
  here; the field \<open>write_summary\<close> of \<open>ValidationHook\<close> is \<open>valid_write_summary\<close>.
\<close>

record hook =
  step :: int

record train_value_hook = hook +
  verb_step :: int
  write_summary :: bool
  value_name :: string
  verb :: bool

record validation_hook = hook +
  valid_step :: int
  valid_write_summary :: bool
  curve_num :: int

definition Hook_init :: hook where
  "Hook_init = \<lparr>step = - 1\<rparr>"

definition TrainValueHook_init :: "int \<Rightarrow> string option \<Rightarrow> string \<Rightarrow> bool \<Rightarrow> bool \<Rightarrow> error + train_value_hook" where
  "TrainValueHook_init vstep ckpt_dir name ws vb =
     (if ws \<and> ckpt_dir = None then Inl AssertionError
      else Inr \<lparr>step = step Hook_init, verb_step = vstep, write_summary = ws,
                value_name = name, verb = vb\<rparr>)"

definition ValidationHook_init :: "int \<Rightarrow> string option \<Rightarrow> bool \<Rightarrow> int \<Rightarrow> error + validation_hook" where
  "ValidationHook_init vstep ckpt_dir ws cnum =
     (if ws \<and> ckpt_dir = None then Inl AssertionError
      else Inr \<lparr>step = step Hook_init, valid_step = vstep, valid_write_summary = ws,
                curve_num = cnum\<rparr>)"

text \<open>
  \<open>TrainValueHook.run\<close>: the hook after the call, the events of the call, and the
  exception the call raised, if any. \<open>self.step % self.verb_step\<close> raises when
  \<open>verb_step\<close> is 0, after the step was incremented.
\<close>

definition TrainValueHook_run :: "train_value_hook \<Rightarrow> session \<Rightarrow> writer option \<Rightarrow> train_value_hook \<times> event list \<times> error option" where
  "TrainValueHook_run h sess wr =
     (let h' = h\<lparr>step := step h + 1\<rparr>
      in if verb_step h' = 0 then (h', [], Some ZeroDivisionError)
         else if step h' mod verb_step h' = 0 then
           (let loss_val = train_loss sess;
                evs = LossRead loss_val # (if verb h' then [TrainPrinted (step h') loss_val] else [])
            in if write_summary h' then
                 (case HookValueSummary_log (value_name h') (Val loss_val) (step h') wr of
                    Inl e \<Rightarrow> (h', evs, Some e)
                  | Inr logged \<Rightarrow> (h', evs @ logged, None))
               else (h', evs, None))
         else (h', [], None))"

text \<open>
  The loop \<open>while True\<close> of \<open>ValidationHook.run\<close> inside its \<open>try\<close>: it ends when
  \<open>sess.run\<close> raises. \<open>OutOfRangeError\<close> is caught and the values collected are kept; any
  other exception leaves the hook. The loop ends because every round consumes an
  element of a finite sequence.
\<close>

function drain :: "session \<Rightarrow> real list \<Rightarrow> matrix option \<Rightarrow> matrix option \<Rightarrow> (error + (real list \<times> matrix option \<times> matrix option)) \<times> session" where
  "drain s loss_val truth pred =
     (case sess_run_batch s of
        (Inl e, s') \<Rightarrow>
          (if e = OutOfRangeError then (Inr (loss_val, truth, pred), s') else (Inl e, s'))
      | (Inr b, s') \<Rightarrow> drain s' (loss_val @ [b_loss b]) (Some (b_truth b)) (Some (b_pred b)))"
  by pat_completeness auto
termination
  by (relation "measure (\<lambda>(s, loss_val, truth, pred). length (cursor s))")
     (auto simp: sess_run_batch_def split: list.splits stream_elem.splits)

declare drain.simps [simp del]

text \<open>
  \<open>ValidationHook.run\<close>: the hook and the session after the call, the events of the call,
  and the exception the call raised, if any.
\<close>

definition ValidationHook_run :: "validation_hook \<Rightarrow> session \<Rightarrow> writer option \<Rightarrow> (nat \<Rightarrow> nat list) \<Rightarrow> validation_hook \<times> session \<times> event list \<times> error option" where
  "ValidationHook_run h sess wr permutation =
     (let h' = h\<lparr>step := step h + 1\<rparr>
      in if valid_step h' = 0 then (h', sess, [], Some ZeroDivisionError)
         else if step h' mod valid_step h' = 0 \<and> step h' \<noteq> 0 then
           (case drain (run_valid_init_op sess) [] None None of
              (Inl e, sess') \<Rightarrow> (h', sess', [ValidInit], Some e)
            | (Inr (loss_val, truth, pred), sess') \<Rightarrow>
               (let loss_mean = np_mean loss_val;
                    evs = [ValidInit, EvalPrinted (step h') loss_mean]
                in if valid_write_summary h' then
                     (case HookValueSummary_log ''valid_mse'' loss_mean (step h') wr of
                        Inl e \<Rightarrow> (h', sess', evs, Some e)
                      | Inr logged \<Rightarrow>
                         (case HookCurvePlotSummary_log ''pred_plot'' truth pred (step h') wr
                                 (curve_num h') permutation of
                            Inl e \<Rightarrow> (h', sess', evs @ logged, Some e)
                          | Inr plotted \<Rightarrow> (h', sess', evs @ logged @ plotted, None)))
                   else (h', sess', evs, None)))
         else (h', sess, [], None))"

text \<open>
  The hook after \<open>n\<close> invocations of \<open>run\<close>, one for each training step, the session of
  invocation \<open>k\<close> being \<open>ss k\<close>. The invocation number \<open>k\<close>, counted from 0, is tick \<open>k\<close>.
\<close>

primrec train_ticks :: "train_value_hook \<Rightarrow> (nat \<Rightarrow> session) \<Rightarrow> writer option \<Rightarrow> nat \<Rightarrow> train_value_hook" where
  "train_ticks h ss wr 0 = h"
| "train_ticks h ss wr (Suc n) = fst (TrainValueHook_run (train_ticks h ss wr n) (ss n) wr)"

primrec valid_ticks :: "validation_hook \<Rightarrow> (nat \<Rightarrow> session) \<Rightarrow> writer option \<Rightarrow> (nat \<Rightarrow> nat list) \<Rightarrow> nat \<Rightarrow> validation_hook" where
  "valid_ticks h ss wr permutation 0 = h"
| "valid_ticks h ss wr permutation (Suc n) =
     fst (ValidationHook_run (valid_ticks h ss wr permutation n) (ss n) wr permutation)"

text \<open>
  The events of tick \<open>k\<close>, and whether the action of a hook was executed in a call: the
  training hook starts its action by reading the loss, the validation hook by
  initialising the validation iterator.
\<close>

definition train_tick_events :: "train_value_hook \<Rightarrow> (nat \<Rightarrow> session) \<Rightarrow> writer option \<Rightarrow> nat \<Rightarrow> event list" where
  "train_tick_events h ss wr k = fst (snd (TrainValueHook_run (train_ticks h ss wr k) (ss k) wr))"

definition valid_tick_events :: "validation_hook \<Rightarrow> (nat \<Rightarrow> session) \<Rightarrow> writer option \<Rightarrow> (nat \<Rightarrow> nat list) \<Rightarrow> nat \<Rightarrow> event list" where
  "valid_tick_events h ss wr permutation k =
     fst (snd (snd (ValidationHook_run (valid_ticks h ss wr permutation k) (ss k) wr permutation)))"

fun is_LossRead :: "event \<Rightarrow> bool" where
  "is_LossRead (LossRead l) = True"
| "is_LossRead e = False"

definition train_action_executed :: "event list \<Rightarrow> bool" where
  "train_action_executed evs = list_ex is_LossRead evs"

definition valid_action_executed :: "event list \<Rightarrow> bool" where
  "valid_action_executed evs = list_ex (\<lambda>e. e = ValidInit) evs"

section \<open>network_helper.py: the metadata parser\<close>

text \<open>
  The string operations of Python that \<open>get_parameters\<close> uses, on ASCII text:
  \<open>str.split ()\<close> cuts at runs of white space and returns no empty string,
  \<open>str.isdigit ()\<close> holds of a non-empty string of decimal digits, and \<open>int\<close> reads such a
  string in base 10; \<open>get_parameters\<close> applies \<open>int\<close> to no other string.
\<close>

definition is_space :: "char \<Rightarrow> bool" where
  "is_space c = (c \<in> set [CHR 0x09, CHR 0x0A, CHR 0x0B, CHR 0x0C, CHR 0x0D,
                      CHR 0x1C, CHR 0x1D, CHR 0x1E, CHR 0x1F, CHR 0x20])"

definition is_digit :: "char \<Rightarrow> bool" where
  "is_digit c = (c \<in> set ''0123456789'')"

fun split_from :: "string \<Rightarrow> string \<Rightarrow> string list" where
  "split_from [] cur = (if cur = [] then [] else [cur])"
| "split_from (c # cs) cur =
     (if is_space c then (if cur = [] then split_from cs [] else cur # split_from cs [])
      else split_from cs (cur @ [c]))"

definition py_split :: "string \<Rightarrow> string list" where
  "py_split s = split_from s []"

definition py_isdigit :: "string \<Rightarrow> bool" where
  "py_isdigit s = (s \<noteq> [] \<and> list_all is_digit s)"

definition digit_val :: "char \<Rightarrow> nat" where
  "digit_val c = of_char c - 48"

definition py_int :: "string \<Rightarrow> int" where
  "py_int s = foldl (\<lambda>acc c. 10 * acc + int (digit_val c)) 0 s"

text \<open>\<open>s.replace (char, ' ')\<close> for a string \<open>char\<close> of one character, and \<open>replace_str\<close>.\<close>

definition str_replace :: "char \<Rightarrow> char \<Rightarrow> string \<Rightarrow> string" where
  "str_replace old new s = map (\<lambda>c. if c = old then new else c) s"

definition replace_str :: "string \<Rightarrow> string" where
  "replace_str s = fold (\<lambda>ch t. str_replace ch (CHR '' '') t) [CHR '','', CHR ''('', CHR '')''] s"

definition parse_ints :: "string \<Rightarrow> int list" where
  "parse_ints line = map py_int (filter py_isdigit (py_split line))"

text \<open>
  \<open>f.readlines ()\<close> on \<open>open (file, 'r')\<close>. The file is opened in text mode with universal
  newlines: a carriage return followed by a line feed, and a carriage return alone, are
  read as one line feed. The lines are those of the text read, each with its line feed;
  the last line may have none.
\<close>

fun universal_newlines :: "string \<Rightarrow> string" where
  "universal_newlines [] = []"
| "universal_newlines [c] = [if c = CHR 0x0D then CHR 0x0A else c]"
| "universal_newlines (c # d # cs) =
     (if c = CHR 0x0D \<and> d = CHR 0x0A then CHR 0x0A # universal_newlines cs
      else if c = CHR 0x0D then CHR 0x0A # universal_newlines (d # cs)
      else c # universal_newlines (d # cs))"

fun readlines_from :: "string \<Rightarrow> string \<Rightarrow> string list" where
  "readlines_from [] cur = (if cur = [] then [] else [cur])"
| "readlines_from (c # cs) cur =
     (if c = CHR 0x0A then (cur @ [c]) # readlines_from cs [] else readlines_from cs (cur @ [c]))"

definition readlines :: "string \<Rightarrow> string list" where
  "readlines content = readlines_from (universal_newlines content) []"

text \<open>
  The body of the loop of \<open>get_parameters\<close> on the three local variables, \<open>None\<close> for a
  variable that is not assigned yet, and \<open>get_parameters\<close> on the text of
  \<open>model_meta.txt\<close>. Returning a variable that was never assigned raises.
\<close>

fun read_line :: "int list option \<times> int list option \<times> int list option \<Rightarrow> string \<Rightarrow> int list option \<times> int list option \<times> int list option" where
  "read_line (fc_filters, tconv_dims, tconv_filters) line =
     (if take 10 line = ''fc_filters''
      then (Some (parse_ints (replace_str line)), tconv_dims, tconv_filters)
      else if take 10 line = ''tconv_dims''
      then (fc_filters, Some (parse_ints (replace_str line)), tconv_filters)
      else if take 13 line = ''tconv_filters''
      then (fc_filters, tconv_dims, Some (parse_ints (replace_str line)))
      else (fc_filters, tconv_dims, tconv_filters))"

definition get_parameters :: "string \<Rightarrow> error + (int list \<times> int list \<times> int list)" where
  "get_parameters content =
     (case foldl read_line (None, None, None) (readlines content) of
        (Some fc_filters, Some tconv_dims, Some tconv_filters) \<Rightarrow>
          Inr (fc_filters, tconv_dims, tconv_filters)
      | _ \<Rightarrow> Inl UnboundLocalError)"

text \<open>
  The lines of a metadata file: the name of the attribute, a space, and the integers as
  Python prints a tuple of them (\<open>(4, 8, 16)\<close>, \<open>(4,)\<close>, \<open>()\<close>), with the newline.
\<close>

definition digit_char :: "nat \<Rightarrow> char" where
  "digit_char d = ''0123456789'' ! d"

fun show_nat :: "nat \<Rightarrow> string" where
  "show_nat n = (if n < 10 then [digit_char n] else show_nat (n div 10) @ [digit_char (n mod 10)])"

declare show_nat.simps [simp del]

fun tuple_repr :: "nat list \<Rightarrow> string" where
  "tuple_repr [] = ''()''"
| "tuple_repr [n] = ''('' @ show_nat n @ '',)''"
| "tuple_repr (n # ns) = ''('' @ show_nat n @ concat (map (\<lambda>m. '', '' @ show_nat m) ns) @ '')''"

definition meta_line :: "string \<Rightarrow> nat list \<Rightarrow> string" where
  "meta_line name ns = name @ '' '' @ tuple_repr ns @ [CHR 0x0A]"

text \<open>
  A line written with a line feed at its end and no other line break in it. The three
  conditions that \<open>get_parameters\<close> tests on a line.
\<close>

definition is_line :: "string \<Rightarrow> bool" where
  "is_line l = (l \<noteq> [] \<and> last l = CHR 0x0A \<and> CHR 0x0A \<notin> set (butlast l)
                \<and> CHR 0x0D \<notin> set l)"

definition is_fc_filters :: "string \<Rightarrow> bool" where
  "is_fc_filters l = (take 10 l = ''fc_filters'')"

definition is_tconv_dims :: "string \<Rightarrow> bool" where
  "is_tconv_dims l = (take 10 l = ''tconv_dims'')"

definition is_tconv_filters :: "string \<Rightarrow> bool" where
  "is_tconv_filters l = (take 13 l = ''tconv_filters'')"

text \<open>
  For the proofs: a token that \<open>replace_str\<close> and \<open>split\<close> leave whole, and the value a
  variable of the loop has after the lines \<open>ls\<close> when the lines selected by \<open>P\<close> assign it.
\<close>

definition plain :: "string \<Rightarrow> bool" where
  "plain t = (t \<noteq> [] \<and> (\<forall>c\<in>set t. \<not> is_space c \<and> c \<noteq> CHR '','' \<and> c \<noteq> CHR ''('' \<and> c \<noteq> CHR '')''))"

definition last_parsed :: "(string \<Rightarrow> bool) \<Rightarrow> string list \<Rightarrow> int list option \<Rightarrow> int list option" where
  "last_parsed P ls init =
     (case filter P ls of [] \<Rightarrow> init | x # xs \<Rightarrow> Some (parse_ints (replace_str (last (x # xs)))))"

section \<open>evaluate.py\<close>

text \<open>
  The arithmetic of 64-bit floating-point numbers is not modelled. The numbers are of a
  type \<open>'f\<close>, and the operations numpy applies to them are parameters: the subtraction,
  the absolute value and the square of numbers, and the mean of a sequence of numbers
  (which is \<open>nan\<close> on the empty sequence).
\<close>

record 'f float_ops =
  f_sub :: "'f \<Rightarrow> 'f \<Rightarrow> 'f"
  f_abs :: "'f \<Rightarrow> 'f"
  f_square :: "'f \<Rightarrow> 'f"
  f_mean :: "'f list \<Rightarrow> 'f"

text \<open>
  Arrays of dimension 0, 1 and 2; a two-dimensional array is the list of its rows.
\<close>

datatype 'f ndarray = Arr0 'f | Arr1 "'f list" | Arr2 "'f list list"

text \<open>
  An elementwise binary operation with numpy's broadcasting: two extents are compatible
  when they are equal or one of them is 1, and an array of lower dimension is extended on
  the left by extents 1.
\<close>

definition broadcast_rows :: "('f \<Rightarrow> 'f \<Rightarrow> 'f) \<Rightarrow> 'f list \<Rightarrow> 'f list \<Rightarrow> error + 'f list" where
  "broadcast_rows f xs ys =
     (if length xs = length ys then Inr (map2 f xs ys)
      else if length xs = 1 then Inr (map (\<lambda>y. f (hd xs) y) ys)
      else if length ys = 1 then Inr (map (\<lambda>x. f x (hd ys)) xs)
      else Inl ValueError)"

fun collect :: "(error + 'a) list \<Rightarrow> error + 'a list" where
  "collect [] = Inr []"
| "collect (Inl e # rs) = Inl e"
| "collect (Inr x # rs) = (case collect rs of Inl e \<Rightarrow> Inl e | Inr xs \<Rightarrow> Inr (x # xs))"

definition broadcast_matrices :: "('f \<Rightarrow> 'f \<Rightarrow> 'f) \<Rightarrow> 'f list list \<Rightarrow> 'f list list \<Rightarrow> error + 'f list list" where
  "broadcast_matrices f xss yss =
     (if length xss = length yss then collect (map2 (broadcast_rows f) xss yss)
      else if length xss = 1 then collect (map (\<lambda>ys. broadcast_rows f (hd xss) ys) yss)
      else if length yss = 1 then collect (map (\<lambda>xs. broadcast_rows f xs (hd yss)) xss)
      else Inl ValueError)"

fun np_sub :: "'f float_ops \<Rightarrow> 'f ndarray \<Rightarrow> 'f ndarray \<Rightarrow> error + 'f ndarray" where
  "np_sub ops (Arr0 x) (Arr0 y) = Inr (Arr0 (f_sub ops x y))"
| "np_sub ops (Arr0 x) (Arr1 ys) = Inr (Arr1 (map (\<lambda>y. f_sub ops x y) ys))"
| "np_sub ops (Arr1 xs) (Arr0 y) = Inr (Arr1 (map (\<lambda>x. f_sub ops x y) xs))"
| "np_sub ops (Arr0 x) (Arr2 yss) = Inr (Arr2 (map (map (\<lambda>y. f_sub ops x y)) yss))"
| "np_sub ops (Arr2 xss) (Arr0 y) = Inr (Arr2 (map (map (\<lambda>x. f_sub ops x y)) xss))"
| "np_sub ops (Arr1 xs) (Arr1 ys) =
     (case broadcast_rows (f_sub ops) xs ys of Inl e \<Rightarrow> Inl e | Inr zs \<Rightarrow> Inr (Arr1 zs))"
| "np_sub ops (Arr1 xs) (Arr2 yss) =
     (case broadcast_matrices (f_sub ops) [xs] yss of Inl e \<Rightarrow> Inl e | Inr zss \<Rightarrow> Inr (Arr2 zss))"
| "np_sub ops (Arr2 xss) (Arr1 ys) =
     (case broadcast_matrices (f_sub ops) xss [ys] of Inl e \<Rightarrow> Inl e | Inr zss \<Rightarrow> Inr (Arr2 zss))"
| "np_sub ops (Arr2 xss) (Arr2 yss) =
     (case broadcast_matrices (f_sub ops) xss yss of Inl e \<Rightarrow> Inl e | Inr zss \<Rightarrow> Inr (Arr2 zss))"

text \<open>An elementwise unary operation, as \<open>np.abs\<close> and \<open>np.square\<close> are.\<close>

fun np_elementwise :: "('f \<Rightarrow> 'f) \<Rightarrow> 'f ndarray \<Rightarrow> 'f ndarray" where
  "np_elementwise f (Arr0 x) = Arr0 (f x)"
| "np_elementwise f (Arr1 xs) = Arr1 (map f xs)"
| "np_elementwise f (Arr2 xss) = Arr2 (map (map f) xss)"

definition np_abs :: "'f float_ops \<Rightarrow> 'f ndarray \<Rightarrow> 'f ndarray" where
  "np_abs ops a = np_elementwise (f_abs ops) a"

definition np_square :: "'f float_ops \<Rightarrow> 'f ndarray \<Rightarrow> 'f ndarray" where
  "np_square ops a = np_elementwise (f_square ops) a"

text \<open>
  \<open>np.mean (a, axis=1)\<close>: the mean of every row of a two-dimensional array; an array of
  lower dimension has no axis 1.
\<close>

fun np_mean_axis1 :: "'f float_ops \<Rightarrow> 'f ndarray \<Rightarrow> error + 'f list" where
  "np_mean_axis1 ops (Arr2 xss) = Inr (map (f_mean ops) xss)"
| "np_mean_axis1 ops (Arr1 xs) = Inl AxisError"
| "np_mean_axis1 ops (Arr0 x) = Inl AxisError"

text \<open>
  \<open>np.loadtxt (file, delimiter=' ')\<close>. The file is given by the numbers of its lines, one
  list for each line; blank lines are skipped. The lines must have the same number of
  columns. The result is squeezed (\<open>ndmin\<close> is 0 by default): a file of one line or of
  one column is a one-dimensional array, a file of one number a zero-dimensional one,
  and an empty file is an empty one-dimensional array.
\<close>

definition loadtxt :: "'f list list \<Rightarrow> error + 'f ndarray" where
  "loadtxt file_rows =
     (let rs = filter (\<lambda>r. r \<noteq> []) file_rows
      in if rs = [] then Inr (Arr1 [])
         else if list_ex (\<lambda>r. length r \<noteq> length (hd rs)) rs then Inl ValueError
         else if length rs = 1 \<and> length (hd rs) = 1 then Inr (Arr0 (hd (hd rs)))
         else if length rs = 1 then Inr (Arr1 (hd rs))
         else if length (hd rs) = 1 then Inr (Arr1 (map hd rs))
         else Inr (Arr2 rs))"

definition compare_truth_pred :: "'f float_ops \<Rightarrow> 'f list list \<Rightarrow> 'f list list \<Rightarrow> error + ('f list \<times> 'f list)" where
  "compare_truth_pred ops pred_file truth_file =
     (case loadtxt pred_file of
        Inl e \<Rightarrow> Inl e
      | Inr pred \<Rightarrow>
         (case loadtxt truth_file of
            Inl e \<Rightarrow> Inl e
          | Inr truth \<Rightarrow>
             (case np_sub ops pred truth of
                Inl e \<Rightarrow> Inl e
              | Inr d \<Rightarrow>
                 (case np_mean_axis1 ops (np_abs ops d) of
                    Inl e \<Rightarrow> Inl e
                  | Inr mae \<Rightarrow>
                     (case np_mean_axis1 ops (np_square ops d) of
                        Inl e \<Rightarrow> Inl e
                      | Inr mse \<Rightarrow> Inr (mae, mse))))))"

text \<open>
  The branch of \<open>main\<close> that decides whether the model is evaluated again. \<open>FORCE_RUN\<close> is
  the module constant; the parsed flag is \<open>force_run\<close> of the flags; the state of the file
  system is the set of paths that exist.
\<close>

definition FORCE_RUN :: bool where
  "FORCE_RUN = True"

record flags =
  force_run :: bool
  model_name :: string

datatype eval_branch = Evaluate | UseSavedFiles

definition save_file :: "string \<Rightarrow> flags \<Rightarrow> string" where
  "save_file dir fl = dir @ ''/data/test_pred_'' @ model_name fl @ ''.csv''"

definition main_branch :: "string \<Rightarrow> flags \<Rightarrow> (string \<Rightarrow> bool) \<Rightarrow> eval_branch" where
  "main_branch dir fl path_exists =
     (if FORCE_RUN \<or> (\<not> path_exists (save_file dir fl)) then Evaluate else UseSavedFiles)"

section \<open>Properties of the network builder\<close>

lemma same_padding_width:
  assumes "0 < fd" "0 < u" "u mod fd = 0"
  shows "0 < u div fd" "(u + u div fd - 1) div (u div fd) = (fd::int)"
proof -
  from assms obtain s where u: "u = fd * s" by auto
  with assms have s: "0 < s" by (simp add: zero_less_mult_iff)
  then show "0 < u div fd" using u assms by simp
  have "(fd * s + s - 1) div s = fd + (s - 1) div s"
    using s by (metis add_diff_eq div_mult_self4 less_numeral_extra(3) mult.commute add.commute)
  also have "(s - 1) div s = 0" using s by (simp add: div_pos_pos_trivial)
  finally show "(u + u div fd - 1) div (u div fd) = fd" using u assms s by simp
qed

lemma conv1d_transpose_stage:
  assumes "0 \<le> bs" "0 < fd" "0 \<le> lf" "0 < u" "0 \<le> f" "u mod fd = 0"
  shows "conv1d_transpose [bs, fd, lf] [3, f, lf] [bs, u, f] (u div fd) = Inr [bs, u, f]"
  using assms same_padding_width[of fd u]
  by (simp add: conv1d_transpose_def expand_dims_def conv2d_backprop_input_def squeeze_def)

lemma tconv_loop_Inr:
  "0 \<le> bs \<Longrightarrow> 0 < fd \<Longrightarrow> 0 \<le> lf \<Longrightarrow> chain_ok fd st \<Longrightarrow>
   tconv_loop [bs, fd, lf] bs fd lf st =
     Inr ([bs, fst (last ((fd, lf) # st)), snd (last ((fd, lf) # st))], chain_strides fd st)"
proof (induction st arbitrary: fd lf)
  case Nil
  then show ?case by simp
next
  case (Cons p st)
  obtain u f where p: "p = (u, f)" by (cases p)
  from Cons.prems p have s: "0 < u" "0 \<le> f" "u mod fd = 0" "chain_ok u st" by simp_all
  have "tconv_loop [bs, u, f] bs u f st =
     Inr ([bs, fst (last ((u, f) # st)), snd (last ((u, f) # st))], chain_strides u st)"
    using Cons.IH[OF Cons.prems(1) s(1) s(2) s(4)] .
  then show ?case
    using Cons.prems s p conv1d_transpose_stage[of bs fd lf u f]
    by (simp add: Let_def)
qed

lemma fc_loop_Inr:
  "\<forall>x\<in>set fc. 0 \<le> x \<Longrightarrow> fc_loop [b, n] fc = Inr [b, last (n # fc)]"
proof (induction fc arbitrary: n)
  case Nil
  then show ?case by simp
next
  case (Cons a fc)
  then show ?case by (simp add: dense_def)
qed

lemma length_chain_strides: "length (chain_strides fd st) = length st"
  by (induction fd st rule: chain_strides.induct) simp_all

lemma chain_strides_exact:
  "chain_ok fd st \<Longrightarrow> i < length st \<Longrightarrow>
   (if i = 0 then fd else fst (st ! (i - 1))) * chain_strides fd st ! i = fst (st ! i)"
proof (induction fd st arbitrary: i rule: chain_strides.induct)
  case (1 fd)
  then show ?case by simp
next
  case (2 fd u f rest)
  show ?case
  proof (cases i)
    case 0
    then show ?thesis using "2.prems" by (simp add: mod_0_imp_dvd)
  next
    case (Suc j)
    then show ?thesis using "2.prems" "2.IH"[of j] by (cases j) simp_all
  qed
qed

lemma chain_ok_index:
  "\<forall>x\<in>set dims. 0 < x \<Longrightarrow> \<forall>x\<in>set filts. 0 \<le> x \<Longrightarrow>
   \<forall>i<min (length dims) (length filts). dims ! i mod (if i = 0 then fd else dims ! (i - 1)) = 0 \<Longrightarrow>
   chain_ok fd (zip dims filts)"
proof (induction dims arbitrary: fd filts)
  case Nil
  then show ?case by simp
next
  case (Cons d dims)
  show ?case
  proof (cases filts)
    case Nil
    then show ?thesis by simp
  next
    case (Cons f fs)
    have d: "d mod fd = 0" using Cons.prems(3) Cons by fastforce
    have "\<forall>i<min (length dims) (length fs). dims ! i mod (if i = 0 then d else dims ! (i - 1)) = 0"
    proof (intro allI impI)
      fix i assume "i < min (length dims) (length fs)"
      then have "Suc i < min (length (d # dims)) (length filts)" using Cons by simp
      from Cons.prems(3)[rule_format, OF this] show "dims ! i mod (if i = 0 then d else dims ! (i - 1)) = 0"
        by (cases i) simp_all
    qed
    then have "chain_ok d (zip dims fs)" using Cons.IH[of fs d] Cons.prems Cons by simp
    then show ?thesis using Cons Cons.prems d by simp
  qed
qed

lemma chain_ok_last_pos:
  "0 < fd \<Longrightarrow> chain_ok fd st \<Longrightarrow> 0 < fst (last ((fd, lf) # st))"
  by (induction fd st arbitrary: lf rule: chain_ok.induct) simp_all

lemma my_model_fn_Inr:
  assumes fc: "fc \<noteq> []" "\<forall>x\<in>set fc. 0 < x"
    and b: "0 \<le> batch"
    and ch: "chain_ok (last fc) (zip dims filts)"
  shows "my_model_fn [batch, n] batch fc dims filts =
     Inr ([batch, fst (last ((last fc, 1) # zip dims filts))], chain_strides (last fc) (zip dims filts))"
proof -
  have nonneg: "\<forall>x\<in>set fc. 0 \<le> x" using fc(2) by force
  have 1: "fc_loop [batch, n] fc = Inr [batch, last fc]"
    using fc_loop_Inr[OF nonneg, of batch n] fc(1) by simp
  have pos: "0 < last fc" using fc by simp
  have 2: "tconv_loop [batch, last fc, 1] batch (last fc) 1 (zip dims filts) =
     Inr ([batch, fst (last ((last fc, 1) # zip dims filts)), snd (last ((last fc, 1) # zip dims filts))],
          chain_strides (last fc) (zip dims filts))"
    using tconv_loop_Inr[OF b pos _ ch, of 1] by simp
  have w: "0 < fst (last ((last fc, 1) # zip dims filts))"
    using chain_ok_last_pos[OF pos ch] .
  show ?thesis
    using fc(1) w by (simp add: my_model_fn_def 1 expand_dims_def 2 layers_conv1d_def squeeze_def)
qed

lemma last_zip_fst:
  "length xs = length ys \<Longrightarrow> xs \<noteq> [] \<Longrightarrow> fst (last (zip xs ys)) = last xs"
  by (induction xs ys rule: list_induct2) (auto simp: zip_eq_Nil_iff)

lemma valid_spec_chain_ok:
  assumes "valid_spec fc dims filts"
  shows "chain_ok (last fc) (zip dims filts)"
proof -
  from assms have "\<forall>x\<in>set dims. 0 < x" "\<forall>x\<in>set filts. 0 \<le> x" "length filts = length dims"
    and d: "\<forall>i<length dims. dims ! i mod feature_dim_at fc dims i = 0"
    by (auto simp: valid_spec_def list_all_iff intro: order_less_imp_le)
  moreover have "\<forall>i<min (length dims) (length filts). dims ! i mod (if i = 0 then last fc else dims ! (i - 1)) = 0"
    using d by (simp add: feature_dim_at_def)
  ultimately show ?thesis using chain_ok_index by blast
qed

lemma tconv_loop_sound:
  "tconv_loop up bs fd lf st = Inr (out, strides) \<Longrightarrow>
   length strides = length st \<and>
   (\<forall>i<length st. (if i = 0 then fd else fst (st ! (i - 1))) * strides ! i = fst (st ! i))"
proof (induction st arbitrary: up fd lf out strides)
  case Nil
  then show ?case by simp
next
  case (Cons p st)
  obtain u f where p: "p = (u, f)" by (cases p)
  from Cons.prems p obtain up' out' strides' where
    fd: "fd \<noteq> 0" "u mod fd = 0"
    and rec: "tconv_loop up' bs u f st = Inr (out', strides')"
    and s: "strides = u div fd # strides'"
    by (auto simp: Let_def split: if_splits sum.splits)
  note ih = Cons.IH[OF rec]
  have "(if i = 0 then fd else fst ((p # st) ! (i - 1))) * strides ! i = fst ((p # st) ! i)"
    if "i < length (p # st)" for i
  proof (cases i)
    case 0
    then show ?thesis using fd s p by (simp add: mod_0_imp_dvd)
  next
    case (Suc j)
    then have "j < length st" using that by simp
    with ih have "(if j = 0 then u else fst (st ! (j - 1))) * strides' ! j = fst (st ! j)" by simp
    then show ?thesis using Suc s p by (cases j) simp_all
  qed
  then show ?case using ih s by simp
qed

lemma my_model_fn_sound:
  assumes "my_model_fn features bs fc dims filts = Inr (out, strides)"
  shows "length strides = min (length dims) (length filts)"
    and "\<forall>i<length strides. feature_dim_at fc dims i * strides ! i = dims ! i"
proof -
  from assms obtain up0 up where
    t: "tconv_loop up0 bs (last fc) 1 (zip dims filts) = Inr (up, strides)"
    by (auto simp: my_model_fn_def split: sum.splits if_splits)
  note s = tconv_loop_sound[OF t]
  from s show len: "length strides = min (length dims) (length filts)" by simp
  show "\<forall>i<length strides. feature_dim_at fc dims i * strides ! i = dims ! i"
  proof (intro allI impI)
    fix i assume "i < length strides"
    then have i: "i < length (zip dims filts)" using len by simp
    then have "i - 1 < length (zip dims filts)" by (auto simp: less_imp_diff_less)
    then have z: "fst (zip dims filts ! (i - 1)) = dims ! (i - 1)" "fst (zip dims filts ! i) = dims ! i"
      using i by simp_all
    from s i have "(if i = 0 then last fc else fst (zip dims filts ! (i - 1))) * strides ! i =
        fst (zip dims filts ! i)" by blast
    then show "feature_dim_at fc dims i * strides ! i = dims ! i"
      using z by (cases "i = 0") (simp_all add: feature_dim_at_def)
  qed
qed

text \<open>
  Claim C1. For an architecture whose stage widths are evenly divisible, that is
  \<open>tconv_dims[i]\<close> is a multiple of the feature dimension entering stage \<open>i\<close> for every
  \<open>i\<close>, \<open>my_model_fn\<close> builds the network, and the stride it computes for every stage
  satisfies \<open>feature_dim_i * stride_i = tconv_dims[i]\<close> exactly, where the feature
  dimension is \<open>fc_filters[-1]\<close> for the first stage and \<open>tconv_dims[i-1]\<close> after it.
  The stages are the pairs of \<open>zip(tconv_dims, tconv_filters)\<close>. And whatever the
  architecture, when \<open>my_model_fn\<close> returns, every stride it computed satisfies the
  equation.
\<close>

theorem my_model_fn_strides_exact:
  assumes "fc_filters \<noteq> []" "\<forall>x\<in>set fc_filters. 0 < x"
    and "\<forall>x\<in>set tconv_dims. 0 < x" "\<forall>x\<in>set tconv_filters. 0 < x"
    and "0 \<le> batch"
    and "\<forall>i<length tconv_dims. tconv_dims ! i mod feature_dim_at fc_filters tconv_dims i = 0"
  shows "(\<exists>out strides.
      my_model_fn [batch, input_size] batch fc_filters tconv_dims tconv_filters = Inr (out, strides)
      \<and> length strides = min (length tconv_dims) (length tconv_filters)
      \<and> (\<forall>i<length strides. feature_dim_at fc_filters tconv_dims i * strides ! i = tconv_dims ! i))
    \<and> (\<forall>features bs out strides.
          my_model_fn features bs fc_filters tconv_dims tconv_filters = Inr (out, strides) \<longrightarrow>
          (\<forall>i<length strides. feature_dim_at fc_filters tconv_dims i * strides ! i = tconv_dims ! i))"
proof -
  let ?st = "zip tconv_dims tconv_filters"
  have nn: "\<forall>x\<in>set tconv_filters. 0 \<le> x" using assms(4) by force
  have "\<forall>i<min (length tconv_dims) (length tconv_filters).
          tconv_dims ! i mod (if i = 0 then last fc_filters else tconv_dims ! (i - 1)) = 0"
    using assms(6) by (simp add: feature_dim_at_def)
  then have ch: "chain_ok (last fc_filters) ?st"
    using chain_ok_index[OF assms(3) nn] by blast
  have run: "my_model_fn [batch, input_size] batch fc_filters tconv_dims tconv_filters =
     Inr ([batch, fst (last ((last fc_filters, 1) # ?st))], chain_strides (last fc_filters) ?st)"
    using my_model_fn_Inr[OF assms(1) assms(2) assms(5) ch] .
  have len: "length (chain_strides (last fc_filters) ?st) = min (length tconv_dims) (length tconv_filters)"
    by (simp add: length_chain_strides)
  have "feature_dim_at fc_filters tconv_dims i * chain_strides (last fc_filters) ?st ! i = tconv_dims ! i"
    if "i < length (chain_strides (last fc_filters) ?st)" for i
  proof -
    from that len have i: "i < length ?st" by simp
    then have "i - 1 < length ?st" by (auto simp: less_imp_diff_less)
    then have "fst (?st ! (i - 1)) = tconv_dims ! (i - 1)" "fst (?st ! i) = tconv_dims ! i"
      using i by simp_all
    then show ?thesis
      using chain_strides_exact[OF ch i] by (cases "i = 0") (simp_all add: feature_dim_at_def)
  qed
  with run len have "\<exists>out strides.
      my_model_fn [batch, input_size] batch fc_filters tconv_dims tconv_filters = Inr (out, strides)
      \<and> length strides = min (length tconv_dims) (length tconv_filters)
      \<and> (\<forall>i<length strides. feature_dim_at fc_filters tconv_dims i * strides ! i = tconv_dims ! i)"
    by blast
  then show ?thesis using my_model_fn_sound(2) by blast
qed

theorem my_model_fn_strides_exact_witness:
  "[4::int] \<noteq> [] \<and> 0 < (4::int) \<and> 0 < (8::int) \<and> 0 < (16::int) \<and> 0 < (2::int) \<and> (0::int) \<le> 20
   \<and> (8::int) mod 4 = 0 \<and> (16::int) mod 8 = 0
   \<and> my_model_fn [20, 2] 20 [4] [8, 16] [2, 2] = Inr ([20, 16], [2, 2])
   \<and> feature_dim_at [4] [8, 16] 0 * 2 = [8, 16] ! 0
   \<and> feature_dim_at [4] [8, 16] 1 * 2 = [8, 16] ! 1"
proof -
  have h: "\<forall>i<length [8::int, 16]. [8, 16] ! i mod feature_dim_at [4] [8, 16] i = 0"
    by (simp add: feature_dim_at_def less_Suc_eq)
  have "\<exists>out strides.
      my_model_fn [20, 2] 20 [4] [8, 16] [2, 2] = Inr (out, strides)
      \<and> length strides = min (length [8::int, 16]) (length [2::int, 2])
      \<and> (\<forall>i<length strides. feature_dim_at [4] [8, 16] i * strides ! i = [8, 16] ! i)"
    using my_model_fn_strides_exact[of "[4]" "[8, 16]" "[2, 2]" 20 2, THEN conjunct1] h by simp
  then obtain out strides where
    r: "my_model_fn [20, 2] 20 [4] [8, 16] [2, 2] = Inr (out, strides)"
    and e: "\<forall>i<length strides. feature_dim_at [4] [8, 16] i * strides ! i = [8, 16] ! i"
    by blast
  have v: "my_model_fn [20, 2] 20 [4] [8, 16] [2, 2] = Inr ([20, 16], [2, 2])"
    by (simp add: my_model_fn_def dense_def expand_dims_def conv1d_transpose_def
        conv2d_backprop_input_def squeeze_def layers_conv1d_def)
  with r have "strides = [2, 2]" by simp
  with e have "feature_dim_at [4] [8, 16] 0 * 2 = [8, 16] ! 0"
    "feature_dim_at [4] [8, 16] 1 * 2 = [8, 16] ! 1" by force+
  with v show ?thesis by simp
qed

text \<open>
  Claim C2. For an input batch of shape \<open>[batch, input_size]\<close> and a valid architecture,
  the forward pass returns a tensor of shape \<open>[batch, tconv_dims[-1]]\<close> when there is an
  upsampling stage and of shape \<open>[batch, fc_filters[-1]]\<close> when \<open>tconv_dims\<close> is empty;
  \<open>fc_filters = [4]\<close> without stages gives \<open>[batch, 4]\<close>, and \<open>fc_filters = [4]\<close>,
  \<open>tconv_dims = [8]\<close>, \<open>tconv_filters = [2]\<close> gives \<open>[batch, 8]\<close>.
\<close>

theorem my_model_fn_output_shape:
  assumes "valid_spec fc_filters tconv_dims tconv_filters" and "0 \<le> batch"
  shows "(\<exists>strides. my_model_fn [batch, input_size] batch fc_filters tconv_dims tconv_filters =
            Inr ([batch, if tconv_dims = [] then last fc_filters else last tconv_dims], strides))
    \<and> (\<exists>strides. my_model_fn [batch, input_size] batch [4] [] [] = Inr ([batch, 4], strides))
    \<and> (\<exists>strides. my_model_fn [batch, input_size] batch [4] [8] [2] = Inr ([batch, 8], strides))"
proof -
  have gen: "\<exists>strides. my_model_fn [batch, input_size] batch fc dims filts =
            Inr ([batch, if dims = [] then last fc else last dims], strides)"
    if v: "valid_spec fc dims filts" for fc dims filts
  proof -
    from v have fc: "fc \<noteq> []" "\<forall>x\<in>set fc. 0 < x" and len: "length filts = length dims"
      by (auto simp: valid_spec_def list_all_iff)
    have "fst (last ((last fc, 1) # zip dims filts)) = (if dims = [] then last fc else last dims)"
      using len last_zip_fst[of dims filts] by (auto simp: zip_eq_Nil_iff)
    then show ?thesis
      using my_model_fn_Inr[OF fc assms(2) valid_spec_chain_ok[OF v], of input_size] by simp
  qed
  have a: "\<exists>strides. my_model_fn [batch, input_size] batch fc_filters tconv_dims tconv_filters =
            Inr ([batch, if tconv_dims = [] then last fc_filters else last tconv_dims], strides)"
    using gen[OF assms(1)] .
  have "valid_spec [4] [] []" by (simp add: valid_spec_def)
  from gen[OF this] have b: "\<exists>strides. my_model_fn [batch, input_size] batch [4] [] [] = Inr ([batch, 4], strides)"
    by simp
  have "valid_spec [4] [8] [2]" by (simp add: valid_spec_def feature_dim_at_def)
  from gen[OF this] have c: "\<exists>strides. my_model_fn [batch, input_size] batch [4] [8] [2] = Inr ([batch, 8], strides)"
    by simp
  from a b c show ?thesis by blast
qed

theorem my_model_fn_output_shape_witness:
  "valid_spec [100, 100] [200, 1000] [4, 8] \<and> (0::int) \<le> 20
   \<and> (\<exists>strides. my_model_fn [20, 2] 20 [100, 100] [200, 1000] [4, 8] = Inr ([20, 1000], strides))
   \<and> (\<exists>strides. my_model_fn [20, 2] 20 [4] [] [] = Inr ([20, 4], strides))
   \<and> (\<exists>strides. my_model_fn [20, 2] 20 [4] [8] [2] = Inr ([20, 8], strides))"
proof -
  have v: "valid_spec [100, 100] [200, 1000] [4, 8]"
    by (simp add: valid_spec_def feature_dim_at_def upt_rec)
  show ?thesis
    using v my_model_fn_output_shape[OF v, of 20 2] by simp
qed

lemma zip_take_min:
  "zip (take (min (length xs) (length ys)) xs) (take (min (length xs) (length ys)) ys) = zip xs ys"
  by (induction xs ys rule: list_induct2') simp_all

text \<open>
  Claim C6, amended. \<open>my_model_fn\<close> never compares the lengths of \<open>tconv_dims\<close> and
  \<open>tconv_filters\<close>: the stages are the pairs of \<open>zip\<close>, so for all arguments, and so when
  the lengths differ, the result is the one for both lists cut to the shorter length
  \<open>k\<close>; and when that prefix is a valid architecture a network of exactly \<open>k\<close> stages is
  built, of output width \<open>tconv_dims[k-1]\<close> (\<open>fc_filters[-1]\<close> when \<open>k = 0\<close>), without any
  error.
\<close>

theorem my_model_fn_mismatched_lengths:
  "(\<forall>features batch_size.
      my_model_fn features batch_size fc_filters tconv_dims tconv_filters =
        my_model_fn features batch_size fc_filters
          (take (min (length tconv_dims) (length tconv_filters)) tconv_dims)
          (take (min (length tconv_dims) (length tconv_filters)) tconv_filters))
   \<and> (valid_spec fc_filters
          (take (min (length tconv_dims) (length tconv_filters)) tconv_dims)
          (take (min (length tconv_dims) (length tconv_filters)) tconv_filters)
        \<and> 0 \<le> batch \<longrightarrow>
        (\<exists>strides.
            my_model_fn [batch, input_size] batch fc_filters tconv_dims tconv_filters =
              Inr ([batch,
                    if min (length tconv_dims) (length tconv_filters) = 0 then last fc_filters
                    else tconv_dims ! (min (length tconv_dims) (length tconv_filters) - 1)],
                   strides)
            \<and> length strides = min (length tconv_dims) (length tconv_filters)))"
proof -
  define k where "k = min (length tconv_dims) (length tconv_filters)"
  let ?d = "take k tconv_dims" and ?f = "take k tconv_filters"
  have z: "zip ?d ?f = zip tconv_dims tconv_filters"
    using zip_take_min[of tconv_dims tconv_filters] k_def by simp
  have eq: "my_model_fn features batch_size fc_filters tconv_dims tconv_filters =
           my_model_fn features batch_size fc_filters ?d ?f" for features batch_size
    by (simp only: my_model_fn_def z)
  have built: "\<exists>strides.
            my_model_fn [batch, input_size] batch fc_filters tconv_dims tconv_filters =
              Inr ([batch, if k = 0 then last fc_filters else tconv_dims ! (k - 1)], strides)
            \<and> length strides = k"
    if v: "valid_spec fc_filters ?d ?f" and b: "0 \<le> batch"
  proof -
    from v have fc: "fc_filters \<noteq> []" "\<forall>x\<in>set fc_filters. 0 < x"
      by (auto simp: valid_spec_def list_all_iff)
    have len: "length ?d = k" "length ?f = k" using k_def by simp_all
    have run: "my_model_fn [batch, input_size] batch fc_filters ?d ?f =
       Inr ([batch, fst (last ((last fc_filters, 1) # zip ?d ?f))],
            chain_strides (last fc_filters) (zip ?d ?f))"
      using my_model_fn_Inr[OF fc b valid_spec_chain_ok[OF v]] .
    have w: "fst (last ((last fc_filters, 1) # zip ?d ?f)) =
        (if k = 0 then last fc_filters else tconv_dims ! (k - 1))"
    proof (cases "k = 0")
      case True
      then show ?thesis by simp
    next
      case False
      then have ne: "?d \<noteq> []" using len by auto
      have "fst (last (zip ?d ?f)) = last ?d" using last_zip_fst[of ?d ?f] len ne by simp
      also have "\<dots> = ?d ! (k - 1)" using ne len by (simp add: last_conv_nth)
      also have "\<dots> = tconv_dims ! (k - 1)" using False by simp
      finally show ?thesis using False ne len by (auto simp: zip_eq_Nil_iff)
    qed
    have "length (chain_strides (last fc_filters) (zip ?d ?f)) = k"
      using len by (simp add: length_chain_strides)
    with eq[of "[batch, input_size]" batch] run w show ?thesis by simp
  qed
  from eq built show ?thesis unfolding k_def by blast
qed

theorem my_model_fn_mismatched_lengths_witness:
  "valid_spec [4] (take (min (length [8::int, 16]) (length [2::int])) [8, 16])
       (take (min (length [8::int, 16]) (length [2::int])) [2])
   \<and> (0::int) \<le> 20
   \<and> my_model_fn [20, 2] 20 [4] [8, 16] [2] = my_model_fn [20, 2] 20 [4] [8] [2]
   \<and> (\<exists>strides. my_model_fn [20, 2] 20 [4] [8, 16] [2] = Inr ([20, 8], strides) \<and> length strides = 1)
   \<and> my_model_fn [20, 2] 20 [4] [10, 16] [2] = my_model_fn [20, 2] 20 [4] [10] [2]
   \<and> my_model_fn [20, 2] 20 [4] [10] [2] = Inl AssertionError"
proof -
  have h3: "valid_spec [4] (take (min (length [8::int, 16]) (length [2::int])) [8, 16])
       (take (min (length [8::int, 16]) (length [2::int])) [2])"
    by (simp add: valid_spec_def feature_dim_at_def)
  have h4: "(0::int) \<le> 20" by simp
  note t = my_model_fn_mismatched_lengths[of "[4]" "[8, 16]" "[2]" 20 2]
  have e1: "my_model_fn [20, 2] 20 [4] [8, 16] [2] = my_model_fn [20, 2] 20 [4] [8] [2]"
    using t[THEN conjunct1, rule_format, of "[20, 2]" 20] by simp
  have e2: "\<exists>strides. my_model_fn [20, 2] 20 [4] [8, 16] [2] = Inr ([20, 8], strides) \<and> length strides = 1"
    using t[THEN conjunct2, rule_format, OF conjI[OF h3 h4]] by simp
  have e3: "my_model_fn [20, 2] 20 [4] [10, 16] [2] = my_model_fn [20, 2] 20 [4] [10] [2]"
    using my_model_fn_mismatched_lengths[of "[4]" "[10, 16]" "[2]" 20 2,
        THEN conjunct1, rule_format, of "[20, 2]" 20] by simp
  have e4: "my_model_fn [20, 2] 20 [4] [10] [2] = Inl AssertionError"
    by (simp add: my_model_fn_def dense_def expand_dims_def)
  show ?thesis
    by (intro conjI) (fact h3, fact h4, fact e1, fact e2, fact e3, fact e4)
qed

text \<open>
  The claim as stated, that differing lengths make the construction fail, is false: with
  two stage widths and one filter count a one-stage network is returned.
\<close>

theorem my_model_fn_mismatched_lengths_counterexample:
  "length [2::int] \<noteq> length [8::int, 16]
   \<and> my_model_fn [20, 2] 20 [4] [8, 16] [2] = Inr ([20, 8], [2])"
  by (simp add: my_model_fn_def dense_def expand_dims_def conv1d_transpose_def
        conv2d_backprop_input_def squeeze_def layers_conv1d_def)


section \<open>Properties of the evaluation\<close>

lemma loadtxt_Arr2:
  assumes "2 \<le> length t" "\<forall>r\<in>set t. length r = m" "2 \<le> m"
  shows "loadtxt t = Inr (Arr2 t)"
proof -
  have f: "filter (\<lambda>r. r \<noteq> []) t = t"
    using assms(2,3) by (auto simp: filter_id_conv)
  have ne: "t \<noteq> []" using assms(1) by auto
  then have hd: "length (hd t) = m" using assms(2) by simp
  have "\<not> list_ex (\<lambda>r. length r \<noteq> length (hd t)) t"
    using assms(2) hd by (simp add: list_ex_iff)
  then show ?thesis
    using f ne hd assms(1,3) by (simp add: loadtxt_def Let_def)
qed

lemma collect_map_Inr:
  "\<forall>x\<in>set xs. f x = Inr (g x) \<Longrightarrow> collect (map f xs) = Inr (map g xs)"
  by (induction xs) simp_all

lemma broadcast_matrices_same_shape:
  assumes "length p = length t" "\<forall>(x, y)\<in>set (zip p t). length x = length y"
  shows "broadcast_matrices f p t = Inr (map2 (\<lambda>xs ys. map2 f xs ys) p t)"
proof -
  have "\<forall>q\<in>set (zip p t). (\<lambda>(xs, ys). broadcast_rows f xs ys) q = Inr ((\<lambda>(xs, ys). map2 f xs ys) q)"
    using assms(2) by (auto simp: broadcast_rows_def)
  from collect_map_Inr[OF this] show ?thesis
    using assms(1) by (simp add: broadcast_matrices_def)
qed

text \<open>
  On two files of the same shape, of two rows and two columns at least, the function
  returns the means of the rows of the absolute and of the squared differences.
\<close>

lemma compare_truth_pred_same_shape:
  assumes "2 \<le> n" "2 \<le> m" "length truth = n" "\<forall>r\<in>set truth. length r = m"
    "length pred = n" "\<forall>r\<in>set pred. length r = m"
  shows "compare_truth_pred ops pred truth =
     Inr (map2 (\<lambda>p t. f_mean ops (map2 (\<lambda>x y. f_abs ops (f_sub ops x y)) p t)) pred truth,
          map2 (\<lambda>p t. f_mean ops (map2 (\<lambda>x y. f_square ops (f_sub ops x y)) p t)) pred truth)"
proof -
  have lp: "loadtxt pred = Inr (Arr2 pred)"
    using loadtxt_Arr2[of pred m] assms by simp
  have lt: "loadtxt truth = Inr (Arr2 truth)"
    using loadtxt_Arr2[of truth m] assms by simp
  have rows: "\<forall>(x, y)\<in>set (zip pred truth). length x = length y"
  proof clarify
    fix a b assume ab: "(a, b) \<in> set (zip pred truth)"
    then have "a \<in> set pred" "b \<in> set truth"
      by (auto dest: set_zip_leftD set_zip_rightD)
    then show "length a = length b" using assms(4,6) by simp
  qed
  have sub: "broadcast_matrices (f_sub ops) pred truth =
      Inr (map2 (\<lambda>xs ys. map2 (f_sub ops) xs ys) pred truth)"
    using broadcast_matrices_same_shape[OF _ rows] assms(3,5) by simp
  show ?thesis
    by (simp add: compare_truth_pred_def lp lt sub np_abs_def np_square_def
        map_zip_map map_zip_map2 o_def split_def zip_map1 zip_map2)
qed

lemma loadtxt_one_column:
  assumes "t \<noteq> []" "\<forall>r\<in>set t. length r = 1"
  shows "loadtxt t = Inr (if length t = 1 then Arr0 (hd (hd t)) else Arr1 (map hd t))"
proof -
  have f: "filter (\<lambda>r. r \<noteq> []) t = t"
    using assms(2) by (auto simp: filter_id_conv)
  have hd: "length (hd t) = 1" using assms by simp
  have "\<not> list_ex (\<lambda>r. length r \<noteq> length (hd t)) t"
    using assms(2) hd by (simp add: list_ex_iff)
  then show ?thesis
    using f hd assms(1) by (simp add: loadtxt_def Let_def)
qed

text \<open>
  Claim C8, which the code breaks. The claim promises, for files of row width 1 that
  differ by a constant \<open>c\<close> in every position, \<open>mae = c\<close> and \<open>mse = c\<^sup>2\<close> for every row,
  and zero vectors for identical files. \<open>compare_truth_pred\<close> returns nothing on such
  files: \<open>np.loadtxt\<close> is called without \<open>ndmin=2\<close> and squeezes a file of one column to
  an array of dimension 1 (of dimension 0 when the file has one line), their difference
  has no axis 1, and \<open>np.mean\<close> raises. This holds for every prediction file and every
  truth file of row width 1 with the same number of lines, whatever the numbers in them
  and whatever the arithmetic of the numbers.
\<close>

theorem compare_truth_pred_width_one:
  assumes "pred_file \<noteq> []" "length pred_file = length truth_file"
    and "\<forall>r\<in>set pred_file. length r = 1" "\<forall>r\<in>set truth_file. length r = 1"
  shows "compare_truth_pred ops pred_file truth_file = Inl AxisError"
proof -
  have tn: "truth_file \<noteq> []" using assms(1,2) by auto
  note lp = loadtxt_one_column[OF assms(1) assms(3)]
  note lt = loadtxt_one_column[OF tn assms(4)]
  show ?thesis
  proof (cases "length pred_file = 1")
    case True
    then show ?thesis
      using assms(2) by (simp add: compare_truth_pred_def lp lt np_abs_def)
  next
    case False
    then show ?thesis
      using assms(2)
      by (simp add: compare_truth_pred_def lp lt np_abs_def broadcast_rows_def)
  qed
qed

theorem compare_truth_pred_width_one_witness:
  "[[3], [3::real]] \<noteq> [] \<and> length [[3], [3::real]] = length [[1], [1::real]]
   \<and> length [3::real] = 1 \<and> length [1::real] = 1
   \<and> compare_truth_pred
         \<lparr>f_sub = (\<lambda>x y. x - y), f_abs = abs, f_square = (\<lambda>x. x * x),
          f_mean = (\<lambda>xs. sum_list xs / real (length xs))\<rparr>
         [[3], [3::real]] [[1], [1]] = Inl AxisError
   \<and> compare_truth_pred
         \<lparr>f_sub = (\<lambda>x y. x - y), f_abs = abs, f_square = (\<lambda>x. x * x),
          f_mean = (\<lambda>xs. sum_list xs / real (length xs))\<rparr>
         [[1], [1::real]] [[1], [1]] = Inl AxisError"
proof -
  let ?ops = "\<lparr>f_sub = (\<lambda>x y. x - y), f_abs = abs, f_square = (\<lambda>x. x * x),
          f_mean = (\<lambda>xs. sum_list xs / real (length xs))\<rparr> :: real float_ops"
  have a1: "[[3], [3::real]] \<noteq> []" by simp
  have a2: "length [[3], [3::real]] = length [[1], [1::real]]" by simp
  have a3: "\<forall>r\<in>set [[3], [3::real]]. length r = 1" by simp
  have a4: "\<forall>r\<in>set [[1], [1::real]]. length r = 1" by simp
  have b1: "[[1], [1::real]] \<noteq> []" by simp
  have b2: "length [[1], [1::real]] = length [[1], [1::real]]" by simp
  have l3: "length [3::real] = 1" and l1: "length [1::real] = 1" by simp_all
  note t1 = compare_truth_pred_width_one[OF a1 a2 a3 a4, of ?ops]
  note t2 = compare_truth_pred_width_one[OF b1 b2 a4 a4, of ?ops]
  show ?thesis
    by (intro conjI) (fact a1, fact a2, fact l3, fact l1, fact t1, fact t2)
qed

text \<open>
  Claim C9. In \<open>main\<close> the branch that skips the evaluation when the prediction file
  exists is unreachable: whatever the parsed force-run flag and whatever the state of the
  file system, the evaluation branch is taken, because the condition reads the module
  constant \<open>FORCE_RUN\<close>, which is true, and not the flag.
\<close>

theorem main_always_evaluates:
  "main_branch dir fl path_exists = Evaluate"
  by (simp add: main_branch_def FORCE_RUN_def)

theorem main_always_evaluates_witness:
  "main_branch ''.'' \<lparr>force_run = False, model_name = ''20180705_125935''\<rparr> (\<lambda>p. True) = Evaluate"
  using main_always_evaluates[of "''.''" "\<lparr>force_run = False, model_name = ''20180705_125935''\<rparr>" "\<lambda>p. True"]
  by simp


section \<open>Properties of the hooks\<close>

lemma TrainValueHook_run_hook:
  "fst (TrainValueHook_run h sess wr) = h\<lparr>step := step h + 1\<rparr>"
  by (simp add: TrainValueHook_run_def Let_def split: sum.splits)

lemma train_ticks_step:
  "train_ticks h ss wr n = h\<lparr>step := step h + int n\<rparr>"
  by (induction n) (simp_all add: TrainValueHook_run_hook)

lemma TrainValueHook_run_events:
  "verb_step h \<noteq> 0 \<Longrightarrow>
   fst (snd (TrainValueHook_run h sess wr)) =
     (if (step h + 1) mod verb_step h = 0
      then LossRead (train_loss sess)
           # (if verb h then [TrainPrinted (step h + 1) (train_loss sess)] else [])
           @ (if write_summary h \<and> wr \<noteq> None
              then [ScalarLogged (value_name h) (Val (train_loss sess)) (step h + 1)] else [])
      else [])"
  by (cases wr) (simp_all add: TrainValueHook_run_def Let_def HookValueSummary_log_def)

lemma ValidationHook_run_hook:
  "fst (ValidationHook_run h sess wr pm) = h\<lparr>step := step h + 1\<rparr>"
  by (simp add: ValidationHook_run_def Let_def split: sum.splits prod.splits)

lemma valid_ticks_step:
  "valid_ticks h ss wr pm n = h\<lparr>step := step h + int n\<rparr>"
  by (induction n) (simp_all add: ValidationHook_run_hook)

lemma ValidationHook_run_executed:
  "valid_step h \<noteq> 0 \<Longrightarrow>
   valid_action_executed (fst (snd (snd (ValidationHook_run h sess wr pm)))) =
     ((step h + 1) mod valid_step h = 0 \<and> step h + 1 \<noteq> 0)"
  by (simp add: ValidationHook_run_def Let_def valid_action_executed_def
      split: sum.splits prod.splits)

text \<open>
  Claim C3. The step of the training hook starts at -1 and every invocation of \<open>run\<close>
  adds exactly 1 to it, so the step after the increment of tick \<open>k\<close> is \<open>k\<close>; the action
  of the hook (reading the loss, printing when \<open>verb\<close> is set, logging when
  \<open>write_summary\<close> is set) is executed at a tick if and only if that step is a multiple of
  \<open>verb_step\<close>, step 0 included; with \<open>verb_step = 5\<close> it fires on the ticks 0, 5 and 10
  and not on 1 to 4 or 6 to 9.
\<close>

theorem train_hook_ticks:
  assumes "TrainValueHook_init vstep ckpt_dir name ws vb = Inr h0" and "vstep \<noteq> 0"
  shows "step h0 = - 1
    \<and> (\<forall>k. step (train_ticks h0 ss wr (Suc k)) = step (train_ticks h0 ss wr k) + 1)
    \<and> (\<forall>k. step (train_ticks h0 ss wr (Suc k)) = int k)
    \<and> (\<forall>k. train_action_executed (train_tick_events h0 ss wr k) = (int k mod vstep = 0))
    \<and> (\<forall>k. train_tick_events h0 ss wr k =
          (if int k mod vstep = 0
           then LossRead (train_loss (ss k))
                # (if vb then [TrainPrinted (int k) (train_loss (ss k))] else [])
                @ (if ws \<and> wr \<noteq> None
                   then [ScalarLogged name (Val (train_loss (ss k))) (int k)] else [])
           else []))
    \<and> (vstep = 5 \<longrightarrow>
          map (\<lambda>k. train_action_executed (train_tick_events h0 ss wr k)) [0..<11] =
            [True, False, False, False, False, True, False, False, False, False, True])"
proof -
  from assms(1) have h0: "h0 = \<lparr>step = - 1, verb_step = vstep, write_summary = ws,
                value_name = name, verb = vb\<rparr>"
    by (simp add: TrainValueHook_init_def Hook_init_def split: if_splits)
  have ev: "train_tick_events h0 ss wr k =
          (if int k mod vstep = 0
           then LossRead (train_loss (ss k))
                # (if vb then [TrainPrinted (int k) (train_loss (ss k))] else [])
                @ (if ws \<and> wr \<noteq> None
                   then [ScalarLogged name (Val (train_loss (ss k))) (int k)] else [])
           else [])" for k
  proof -
    have t: "train_ticks h0 ss wr k = \<lparr>step = int k - 1, verb_step = vstep, write_summary = ws,
                value_name = name, verb = vb\<rparr>"
      by (simp add: train_ticks_step h0)
    show ?thesis
      unfolding train_tick_events_def t
      using assms(2) by (subst TrainValueHook_run_events) auto
  qed
  have ex: "train_action_executed (train_tick_events h0 ss wr k) = (int k mod vstep = 0)" for k
    by (simp add: ev train_action_executed_def)
  have five: "map (\<lambda>k. train_action_executed (train_tick_events h0 ss wr k)) [0..<11] =
            [True, False, False, False, False, True, False, False, False, False, True]"
    if "vstep = 5"
    using that by (simp add: ex upt_rec)
  show ?thesis
    using ev ex five by (simp add: train_ticks_step h0)
qed

theorem train_hook_ticks_witness:
  "TrainValueHook_init 5 None ''mean_squared_error'' False True =
     Inr \<lparr>step = - 1, verb_step = 5, write_summary = False,
          value_name = ''mean_squared_error'', verb = True\<rparr>
   \<and> (5::int) \<noteq> 0
   \<and> map (\<lambda>k. train_action_executed
          (train_tick_events
             \<lparr>step = - 1, verb_step = 5, write_summary = False,
              value_name = ''mean_squared_error'', verb = True\<rparr>
             (\<lambda>k. \<lparr>train_loss = 1 / 2, valid_data = [], cursor = []\<rparr>) None k)) [0..<11] =
         [True, False, False, False, False, True, False, False, False, False, True]
   \<and> train_tick_events
         \<lparr>step = - 1, verb_step = 5, write_summary = False,
          value_name = ''mean_squared_error'', verb = True\<rparr>
         (\<lambda>k. \<lparr>train_loss = 1 / 2, valid_data = [], cursor = []\<rparr>) None 5 =
       [LossRead (1 / 2), TrainPrinted 5 (1 / 2)]"
proof -
  let ?h = "\<lparr>step = - 1, verb_step = 5, write_summary = False,
          value_name = ''mean_squared_error'', verb = True\<rparr>"
  let ?ss = "\<lambda>k::nat. \<lparr>train_loss = 1 / 2, valid_data = [], cursor = []\<rparr>"
  have i: "TrainValueHook_init 5 None ''mean_squared_error'' False True = Inr ?h"
    by (simp add: TrainValueHook_init_def Hook_init_def)
  have n: "(5::int) \<noteq> 0" by simp
  note t = train_hook_ticks[OF i n, of ?ss None]
  note t5 = t[THEN conjunct2, THEN conjunct2, THEN conjunct2, THEN conjunct2]
  have m: "map (\<lambda>k. train_action_executed (train_tick_events ?h ?ss None k)) [0..<11] =
         [True, False, False, False, False, True, False, False, False, False, True]"
    using t5[THEN conjunct2, rule_format, OF refl] .
  have "train_tick_events ?h ?ss None 5 =
          (if int 5 mod 5 = 0
           then LossRead (train_loss (?ss 5))
                # (if True then [TrainPrinted (int 5) (train_loss (?ss 5))] else [])
                @ (if False \<and> (None :: writer option) \<noteq> None
                   then [ScalarLogged ''mean_squared_error'' (Val (train_loss (?ss 5))) (int 5)] else [])
           else [])"
    using t5[THEN conjunct1, rule_format, of 5] .
  then have e: "train_tick_events ?h ?ss None 5 = [LossRead (1 / 2), TrainPrinted 5 (1 / 2)]"
    by simp
  show ?thesis
    by (intro conjI) (fact i, fact n, fact m, fact e)
qed

text \<open>
  Claim C4. The action of the validation hook is executed at a tick if and only if the
  step after the increment is a multiple of the evaluation period and is not 0; it never
  fires on tick 0, and with a period of 10 it fires exactly on the ticks 10, 20, 30 and
  so on.
\<close>

theorem validation_hook_ticks:
  assumes "ValidationHook_init vstep ckpt_dir ws cnum = Inr h0" and "vstep \<noteq> 0"
  shows "step h0 = - 1
    \<and> (\<forall>k. step (valid_ticks h0 ss wr pm (Suc k)) = int k)
    \<and> (\<forall>k. valid_action_executed (valid_tick_events h0 ss wr pm k) =
          (int k mod vstep = 0 \<and> k \<noteq> 0))
    \<and> \<not> valid_action_executed (valid_tick_events h0 ss wr pm 0)
    \<and> (vstep = 10 \<longrightarrow>
          (\<forall>k. valid_action_executed (valid_tick_events h0 ss wr pm k) = (\<exists>j>0. k = 10 * j)))"
proof -
  from assms(1) have h0: "h0 = \<lparr>step = - 1, valid_step = vstep, valid_write_summary = ws,
                curve_num = cnum\<rparr>"
    by (simp add: ValidationHook_init_def Hook_init_def split: if_splits)
  have ex: "valid_action_executed (valid_tick_events h0 ss wr pm k) =
          (int k mod vstep = 0 \<and> k \<noteq> 0)" for k
  proof -
    have t: "valid_ticks h0 ss wr pm k = \<lparr>step = int k - 1, valid_step = vstep,
                valid_write_summary = ws, curve_num = cnum\<rparr>"
      by (simp add: valid_ticks_step h0)
    show ?thesis
      unfolding valid_tick_events_def t
      using assms(2) by (subst ValidationHook_run_executed) auto
  qed
  have ten: "valid_action_executed (valid_tick_events h0 ss wr pm k) = (\<exists>j>0. k = 10 * j)"
    if "vstep = 10" for k
  proof -
    have "(int k mod 10 = 0) = (10 dvd k)" by presburger
    then have "(int k mod 10 = 0 \<and> k \<noteq> 0) = (\<exists>j>0. k = 10 * j)"
      by (auto simp: dvd_def)
    then show ?thesis using that by (simp add: ex)
  qed
  show ?thesis
    using ex ten by (simp add: valid_ticks_step h0)
qed

theorem validation_hook_ticks_witness:
  "ValidationHook_init 10 None False 6 =
     Inr \<lparr>step = - 1, valid_step = 10, valid_write_summary = False, curve_num = 6\<rparr>
   \<and> (10::int) \<noteq> 0
   \<and> map (\<lambda>k. valid_action_executed
          (valid_tick_events
             \<lparr>step = - 1, valid_step = 10, valid_write_summary = False, curve_num = 6\<rparr>
             (\<lambda>k. \<lparr>train_loss = 1 / 2, valid_data = [], cursor = []\<rparr>) None (\<lambda>n. [0..<n]) k))
         [0, 1, 9, 10, 11, 19, 20, 30] =
       [False, False, False, True, False, False, True, True]"
proof -
  let ?h = "\<lparr>step = - 1, valid_step = 10, valid_write_summary = False, curve_num = 6\<rparr>"
  let ?ss = "\<lambda>k::nat. \<lparr>train_loss = 1 / 2, valid_data = [], cursor = []\<rparr>"
  have i: "ValidationHook_init 10 None False 6 = Inr ?h"
    by (simp add: ValidationHook_init_def Hook_init_def)
  have n: "(10::int) \<noteq> 0" by simp
  note t = validation_hook_ticks[OF i n, of ?ss None "\<lambda>n. [0..<n]"]
  have "\<forall>k. valid_action_executed (valid_tick_events ?h ?ss None (\<lambda>n. [0..<n]) k) =
          (int k mod 10 = 0 \<and> k \<noteq> 0)"
    using t[THEN conjunct2, THEN conjunct2, THEN conjunct1] .
  then have m: "map (\<lambda>k. valid_action_executed (valid_tick_events ?h ?ss None (\<lambda>n. [0..<n]) k))
         [0, 1, 9, 10, 11, 19, 20, 30] =
       [False, False, False, True, False, False, True, True]"
    by simp
  show ?thesis
    by (intro conjI) (fact i, fact n, fact m)
qed

lemma drain_elems:
  "cursor s = map Elem bs \<Longrightarrow>
   drain s acc tr pr =
     (Inr (acc @ map b_loss bs,
           if bs = [] then tr else Some (b_truth (last bs)),
           if bs = [] then pr else Some (b_pred (last bs))),
      s\<lparr>cursor := []\<rparr>)"
proof (induction bs arbitrary: s acc tr pr)
  case Nil
  then show ?case by (subst drain.simps) (simp add: sess_run_batch_def)
next
  case (Cons b bs)
  have "cursor (s\<lparr>cursor := map Elem bs\<rparr>) = map Elem bs" by simp
  note ih = Cons.IH[OF this, of "acc @ [b_loss b]" "Some (b_truth b)" "Some (b_pred b)"]
  show ?case
    using Cons.prems by (subst drain.simps) (simp add: sess_run_batch_def ih)
qed

lemma drain_not_exhausted:
  "fst (drain s acc tr pr) \<noteq> Inl OutOfRangeError"
proof (induction s acc tr pr rule: drain.induct)
  case (1 s loss_val truth pred)
  show ?case
  proof (cases "sess_run_batch s")
    case (Pair r s')
    show ?thesis
    proof (cases r)
      case (Inl e)
      then show ?thesis using Pair by (subst drain.simps) simp
    next
      case (Inr b)
      then show ?thesis using Pair "1.IH"
        by (subst drain.simps) simp
    qed
  qed
qed

lemma plot_curves_not_exhausted:
  "plot_curves t p idx ks \<noteq> Inl OutOfRangeError"
  by (induction ks) (auto simp: sub_rows_def split: option.splits sum.splits if_splits)

lemma HookCurvePlotSummary_log_not_exhausted:
  "HookCurvePlotSummary_log nm t p stp wr cn pm \<noteq> Inl OutOfRangeError"
  using plot_curves_not_exhausted
  by (auto simp: HookCurvePlotSummary_log_def Let_def split: option.splits sum.splits)

lemma ValidationHook_run_not_exhausted:
  "snd (snd (snd (ValidationHook_run h sess wr pm))) \<noteq> Some OutOfRangeError"
proof -
  obtain r s' where d: "drain (run_valid_init_op sess) [] None None = (r, s')"
    by (cases "drain (run_valid_init_op sess) [] None None")
  have r: "r \<noteq> Inl OutOfRangeError"
    using drain_not_exhausted[of "run_valid_init_op sess" "[]" None None] d by simp
  show ?thesis
    using r HookCurvePlotSummary_log_not_exhausted
    by (auto simp: ValidationHook_run_def Let_def d HookValueSummary_log_def
        split: sum.splits option.splits prod.splits)
qed

lemma ValidationHook_run_fired:
  assumes "valid_step h \<noteq> 0" "(step h + 1) mod valid_step h = 0" "step h + 1 \<noteq> 0"
    and "drain (run_valid_init_op sess) [] None None = (Inr (loss_val, truth, pred), sess')"
  shows "ValidationHook_run h sess wr pm =
     (if valid_write_summary h then
        (case HookValueSummary_log ''valid_mse'' (np_mean loss_val) (step h + 1) wr of
           Inl e \<Rightarrow> (h\<lparr>step := step h + 1\<rparr>, sess',
                     [ValidInit, EvalPrinted (step h + 1) (np_mean loss_val)], Some e)
         | Inr logged \<Rightarrow>
            (case HookCurvePlotSummary_log ''pred_plot'' truth pred (step h + 1) wr (curve_num h) pm of
               Inl e \<Rightarrow> (h\<lparr>step := step h + 1\<rparr>, sess',
                         [ValidInit, EvalPrinted (step h + 1) (np_mean loss_val)] @ logged, Some e)
             | Inr plotted \<Rightarrow> (h\<lparr>step := step h + 1\<rparr>, sess',
                         [ValidInit, EvalPrinted (step h + 1) (np_mean loss_val)] @ logged @ plotted,
                         None)))
      else (h\<lparr>step := step h + 1\<rparr>, sess',
            [ValidInit, EvalPrinted (step h + 1) (np_mean loss_val)], None))"
  using assms by (simp add: ValidationHook_run_def Let_def split: sum.splits)

text \<open>
  Claim C5. When the validation hook fires on a validation stream of at least one batch,
  it reads the stream to its end: the exhaustion is caught inside the hook and is never
  the exception of the call, which returns normally when no summary is written; the
  loss it reports is the arithmetic mean of the losses of all the batches of the pass,
  and the truth and prediction arrays it passes to the curve plot are those of the last
  batch read.
\<close>

theorem validation_pass:
  assumes "valid_step h \<noteq> 0" "(step h + 1) mod valid_step h = 0" "step h + 1 \<noteq> 0"
    and "valid_data sess = map Elem bs" "bs \<noteq> []"
    and "loss_mean = Val (sum_list (map b_loss bs) / real (length bs))"
    and "h' = h\<lparr>step := step h + 1\<rparr>"
    and "evs = [ValidInit, EvalPrinted (step h + 1) loss_mean]"
  shows "drain (run_valid_init_op sess) [] None None =
           (Inr (map b_loss bs, Some (b_truth (last bs)), Some (b_pred (last bs))),
            sess\<lparr>cursor := []\<rparr>)
    \<and> ValidationHook_run h sess wr pm =
         (if valid_write_summary h then
            (case HookValueSummary_log ''valid_mse'' loss_mean (step h + 1) wr of
               Inl e \<Rightarrow> (h', sess\<lparr>cursor := []\<rparr>, evs, Some e)
             | Inr logged \<Rightarrow>
                (case HookCurvePlotSummary_log ''pred_plot'' (Some (b_truth (last bs)))
                        (Some (b_pred (last bs))) (step h + 1) wr (curve_num h) pm of
                   Inl e \<Rightarrow> (h', sess\<lparr>cursor := []\<rparr>, evs @ logged, Some e)
                 | Inr plotted \<Rightarrow> (h', sess\<lparr>cursor := []\<rparr>, evs @ logged @ plotted, None)))
          else (h', sess\<lparr>cursor := []\<rparr>, evs, None))
    \<and> snd (snd (snd (ValidationHook_run h sess wr pm))) \<noteq> Some OutOfRangeError
    \<and> (\<not> valid_write_summary h \<longrightarrow> snd (snd (snd (ValidationHook_run h sess wr pm))) = None)"
proof -
  have c: "cursor (run_valid_init_op sess) = map Elem bs"
    using assms(4) by (simp add: run_valid_init_op_def)
  have d: "drain (run_valid_init_op sess) [] None None =
           (Inr (map b_loss bs, Some (b_truth (last bs)), Some (b_pred (last bs))),
            sess\<lparr>cursor := []\<rparr>)"
    using drain_elems[OF c, of "[]" None None] assms(5) by (simp add: run_valid_init_op_def)
  have m: "np_mean (map b_loss bs) = loss_mean"
    using assms(5,6) by (simp add: np_mean_def)
  note r = ValidationHook_run_fired[OF assms(1-3) d, of wr pm, unfolded m, folded assms(7) assms(8)]
  have n: "\<not> valid_write_summary h \<longrightarrow> snd (snd (snd (ValidationHook_run h sess wr pm))) = None"
    by (simp add: r)
  from d r n ValidationHook_run_not_exhausted[of h sess wr pm] show ?thesis
    by (intro conjI)
qed

text \<open>
  Claim C10. When the validation hook fires and the validation stream yields no batch, the
  pass ends with an empty list of losses: the mean it reports is \<open>nan\<close>, the truth and the
  prediction it keeps are still \<open>None\<close>, and writing the summaries raises, since the curve
  plot reads \<open>truth.shape\<close>. On a stream of batches the mean is \<open>nan\<close> and the arrays are
  \<open>None\<close> exactly when the stream is empty, so the summary logging of the hook is well
  defined only for a pass of at least one batch.
\<close>

theorem validation_pass_without_batches:
  assumes "valid_step h \<noteq> 0" "(step h + 1) mod valid_step h = 0" "step h + 1 \<noteq> 0"
    and "valid_data sess = []"
  shows "drain (run_valid_init_op sess) [] None None = (Inr ([], None, None), sess\<lparr>cursor := []\<rparr>)
    \<and> np_mean [] = NaN
    \<and> ValidationHook_run h sess wr pm =
         (h\<lparr>step := step h + 1\<rparr>, sess\<lparr>cursor := []\<rparr>,
          [ValidInit, EvalPrinted (step h + 1) NaN]
            @ (if valid_write_summary h \<and> wr \<noteq> None
               then [ScalarLogged ''valid_mse'' NaN (step h + 1)] else []),
          if valid_write_summary h then Some AttributeError else None)
    \<and> (\<forall>s bs. cursor s = map Elem bs \<longrightarrow>
          (\<exists>loss_val truth pred s'.
              drain s [] None None = (Inr (loss_val, truth, pred), s')
              \<and> (np_mean loss_val = NaN) = (bs = [])
              \<and> (truth = None) = (bs = []) \<and> (pred = None) = (bs = [])))"
proof -
  have c: "cursor (run_valid_init_op sess) = map Elem []"
    using assms(4) by (simp add: run_valid_init_op_def)
  have d: "drain (run_valid_init_op sess) [] None None = (Inr ([], None, None), sess\<lparr>cursor := []\<rparr>)"
    using drain_elems[OF c, of "[]" None None] by (simp add: run_valid_init_op_def)
  have m: "np_mean [] = NaN" by (simp add: np_mean_def)
  have r: "ValidationHook_run h sess wr pm =
         (h\<lparr>step := step h + 1\<rparr>, sess\<lparr>cursor := []\<rparr>,
          [ValidInit, EvalPrinted (step h + 1) NaN]
            @ (if valid_write_summary h \<and> wr \<noteq> None
               then [ScalarLogged ''valid_mse'' NaN (step h + 1)] else []),
          if valid_write_summary h then Some AttributeError else None)"
    unfolding ValidationHook_run_fired[OF assms(1-3) d, of wr pm, unfolded m]
    by (cases wr) (simp_all add: HookValueSummary_log_def HookCurvePlotSummary_log_def)
  have g: "\<exists>loss_val truth pred s'.
              drain s [] None None = (Inr (loss_val, truth, pred), s')
              \<and> (np_mean loss_val = NaN) = (bs = [])
              \<and> (truth = None) = (bs = []) \<and> (pred = None) = (bs = [])"
    if "cursor s = map Elem bs" for s bs
    using drain_elems[OF that, of "[]" None None] by (simp add: np_mean_def)
  from d m r g show ?thesis by blast
qed

theorem validation_pass_witness:
  "valid_step \<lparr>step = 9, valid_step = 10, valid_write_summary = True, curve_num = 1\<rparr> \<noteq> 0
   \<and> (step \<lparr>step = 9, valid_step = 10, valid_write_summary = True, curve_num = 1\<rparr> + 1) mod
       valid_step \<lparr>step = 9, valid_step = 10, valid_write_summary = True, curve_num = 1\<rparr> = 0
   \<and> step \<lparr>step = 9, valid_step = 10, valid_write_summary = True, curve_num = 1\<rparr> + 1 \<noteq> 0
   \<and> [\<lparr>b_loss = 1, b_truth = [[1, 2]], b_pred = [[1, 3]]\<rparr>,
       \<lparr>b_loss = 2, b_truth = [[5, 2]], b_pred = [[1, 4]]\<rparr>] \<noteq> []
   \<and> ValidationHook_run
         \<lparr>step = 9, valid_step = 10, valid_write_summary = True, curve_num = 1\<rparr>
         \<lparr>train_loss = 0,
          valid_data = map Elem [\<lparr>b_loss = 1, b_truth = [[1, 2]], b_pred = [[1, 3]]\<rparr>,
                                 \<lparr>b_loss = 2, b_truth = [[5, 2]], b_pred = [[1, 4]]\<rparr>],
          cursor = []\<rparr>
         (Some SummaryWriter) (\<lambda>n. [0..<n]) =
       (\<lparr>step = 10, valid_step = 10, valid_write_summary = True, curve_num = 1\<rparr>,
        \<lparr>train_loss = 0,
          valid_data = map Elem [\<lparr>b_loss = 1, b_truth = [[1, 2]], b_pred = [[1, 3]]\<rparr>,
                                 \<lparr>b_loss = 2, b_truth = [[5, 2]], b_pred = [[1, 4]]\<rparr>],
          cursor = []\<rparr>,
        [ValidInit, EvalPrinted 10 (Val (3 / 2)), ScalarLogged ''valid_mse'' (Val (3 / 2)) 10,
         CurvesLogged ''pred_plot'' [([5, 2], [1, 4], 20)] 10],
        None)"
proof -
  let ?h = "\<lparr>step = 9, valid_step = 10, valid_write_summary = True, curve_num = 1\<rparr>"
  let ?bs = "[\<lparr>b_loss = 1, b_truth = [[1, 2]], b_pred = [[1, 3]]\<rparr>,
              \<lparr>b_loss = 2, b_truth = [[5, 2]], b_pred = [[1, 4]]\<rparr>]"
  let ?s = "\<lparr>train_loss = 0, valid_data = map Elem ?bs, cursor = []\<rparr>"
  have a1: "valid_step ?h \<noteq> 0" by simp
  have a2: "(step ?h + 1) mod valid_step ?h = 0" by simp
  have a3: "step ?h + 1 \<noteq> 0" by simp
  have a4: "valid_data ?s = map Elem ?bs" by simp
  have a5: "?bs \<noteq> []" by simp
  note t = validation_pass[OF a1 a2 a3 a4 a5 refl refl refl, of "Some SummaryWriter" "\<lambda>n. [0..<n]"]
  have r: "ValidationHook_run ?h ?s (Some SummaryWriter) (\<lambda>n. [0..<n]) =
       (\<lparr>step = 10, valid_step = 10, valid_write_summary = True, curve_num = 1\<rparr>, ?s,
        [ValidInit, EvalPrinted 10 (Val (3 / 2)), ScalarLogged ''valid_mse'' (Val (3 / 2)) 10,
         CurvesLogged ''pred_plot'' [([5, 2], [1, 4], 20)] 10],
        None)"
    unfolding t[THEN conjunct2, THEN conjunct1]
    by (simp add: HookValueSummary_log_def HookCurvePlotSummary_log_def sub_rows_def)
  show ?thesis
    by (intro conjI) (fact a1, fact a2, fact a3, fact a5, fact r)
qed

theorem validation_pass_without_batches_witness:
  "valid_step \<lparr>step = 9, valid_step = 10, valid_write_summary = True, curve_num = 6\<rparr> \<noteq> 0
   \<and> (step \<lparr>step = 9, valid_step = 10, valid_write_summary = True, curve_num = 6\<rparr> + 1) mod
       valid_step \<lparr>step = 9, valid_step = 10, valid_write_summary = True, curve_num = 6\<rparr> = 0
   \<and> step \<lparr>step = 9, valid_step = 10, valid_write_summary = True, curve_num = 6\<rparr> + 1 \<noteq> 0
   \<and> valid_data \<lparr>train_loss = 0, valid_data = [], cursor = []\<rparr> = []
   \<and> ValidationHook_run
         \<lparr>step = 9, valid_step = 10, valid_write_summary = True, curve_num = 6\<rparr>
         \<lparr>train_loss = 0, valid_data = [], cursor = []\<rparr>
         (Some SummaryWriter) (\<lambda>n. [0..<n]) =
       (\<lparr>step = 10, valid_step = 10, valid_write_summary = True, curve_num = 6\<rparr>,
        \<lparr>train_loss = 0, valid_data = [], cursor = []\<rparr>,
        [ValidInit, EvalPrinted 10 NaN, ScalarLogged ''valid_mse'' NaN 10],
        Some AttributeError)"
proof -
  let ?h = "\<lparr>step = 9, valid_step = 10, valid_write_summary = True, curve_num = 6\<rparr>"
  let ?s = "\<lparr>train_loss = 0, valid_data = [], cursor = []\<rparr>"
  have a1: "valid_step ?h \<noteq> 0" by simp
  have a2: "(step ?h + 1) mod valid_step ?h = 0" by simp
  have a3: "step ?h + 1 \<noteq> 0" by simp
  have a4: "valid_data ?s = []" by simp
  note t = validation_pass_without_batches[OF a1 a2 a3 a4, of "Some SummaryWriter" "\<lambda>n. [0..<n]"]
  have r: "ValidationHook_run ?h ?s (Some SummaryWriter) (\<lambda>n. [0..<n]) =
       (\<lparr>step = 10, valid_step = 10, valid_write_summary = True, curve_num = 6\<rparr>, ?s,
        [ValidInit, EvalPrinted 10 NaN, ScalarLogged ''valid_mse'' NaN 10],
        Some AttributeError)"
    unfolding t[THEN conjunct2, THEN conjunct2, THEN conjunct1]
    by simp
  show ?thesis
    by (intro conjI) (fact a1, fact a2, fact a3, fact a4, fact r)
qed


section \<open>Properties of the metadata parser\<close>

lemma digit_cases: "d < 10 \<Longrightarrow> d \<in> {0, 1, 2, 3, 4, 5, 6, 7, 8, 9::nat}"
  by auto

lemma digit_char_props:
  assumes "d < 10"
  shows "is_digit (digit_char d)" "digit_val (digit_char d) = d" "\<not> is_space (digit_char d)"
    "digit_char d \<noteq> CHR '',''" "digit_char d \<noteq> CHR ''(''" "digit_char d \<noteq> CHR '')''"
  using digit_cases[OF assms]
  by (auto simp: digit_char_def is_digit_def digit_val_def is_space_def)

lemma show_nat_ne: "show_nat n \<noteq> []"
  by (subst show_nat.simps) simp

lemma show_nat_set: "c \<in> set (show_nat n) \<Longrightarrow> \<exists>d<10. c = digit_char d"
proof (induction n rule: show_nat.induct)
  case (1 n)
  show ?case
  proof (cases "n < 10")
    case True
    with "1.prems" have "c = digit_char n" by (subst (asm) show_nat.simps) simp
    with True show ?thesis by blast
  next
    case False
    with "1.prems" have "c \<in> set (show_nat (n div 10)) \<or> c = digit_char (n mod 10)"
      by (subst (asm) show_nat.simps) auto
    then show ?thesis
    proof
      assume "c \<in> set (show_nat (n div 10))"
      then show ?thesis using "1.IH"[OF False] by simp
    next
      assume "c = digit_char (n mod 10)"
      moreover have "n mod 10 < 10" by simp
      ultimately show ?thesis by blast
    qed
  qed
qed

lemma show_nat_plain: "plain (show_nat n)"
  unfolding plain_def
proof (intro conjI ballI)
  show "show_nat n \<noteq> []" by (rule show_nat_ne)
next
  fix c assume "c \<in> set (show_nat n)"
  then obtain d where "d < 10" "c = digit_char d" using show_nat_set by blast
  then show "\<not> is_space c" "c \<noteq> CHR '',''" "c \<noteq> CHR ''(''" "c \<noteq> CHR '')''"
    using digit_char_props(3-6)[of d] by simp_all
qed

lemma show_nat_isdigit: "py_isdigit (show_nat n)"
  unfolding py_isdigit_def list_all_iff
proof (intro conjI ballI)
  show "show_nat n \<noteq> []" by (rule show_nat_ne)
next
  fix c assume "c \<in> set (show_nat n)"
  then obtain d where "d < 10" "c = digit_char d" using show_nat_set by blast
  then show "is_digit c" using digit_char_props(1)[of d] by simp
qed

lemma py_int_snoc: "py_int (s @ [c]) = 10 * py_int s + int (digit_val c)"
  by (simp add: py_int_def)

lemma py_int_show_nat: "py_int (show_nat n) = int n"
proof (induction n rule: show_nat.induct)
  case (1 n)
  show ?case
  proof (cases "n < 10")
    case True
    then show ?thesis
      by (subst show_nat.simps) (simp add: py_int_def digit_char_props(2))
  next
    case False
    have "n mod 10 < 10" by simp
    then have "digit_val (digit_char (n mod 10)) = n mod 10" by (rule digit_char_props(2))
    moreover have "10 * int (n div 10) + int (n mod 10) = int n" by presburger
    ultimately show ?thesis using False 1
      by (subst show_nat.simps) (simp add: py_int_snoc)
  qed
qed

lemma split_from_token:
  "\<forall>c\<in>set t. \<not> is_space c \<Longrightarrow> split_from (t @ rest) cur = split_from rest (cur @ t)"
  by (induction t arbitrary: cur) simp_all

lemma split_from_spaces:
  "\<forall>c\<in>set sp. is_space c \<Longrightarrow> split_from (sp @ rest) [] = split_from rest []"
  by (induction sp) simp_all

lemma split_from_end:
  "\<forall>c\<in>set sp. is_space c \<Longrightarrow> cur \<noteq> [] \<Longrightarrow> split_from sp cur = [cur]"
  using split_from_spaces[of _ "[]"] by (cases sp) simp_all

lemma space_is_space: "is_space (CHR '' '')"
  by (simp add: is_space_def)

lemma split_numbers:
  "cur \<noteq> [] \<Longrightarrow> \<forall>c\<in>set trail. is_space c \<Longrightarrow>
   split_from (concat (map (\<lambda>m. ''  '' @ show_nat m) ms) @ trail) cur = cur # map show_nat ms"
proof (induction ms arbitrary: cur)
  case Nil
  then show ?case by (simp add: split_from_end)
next
  case (Cons m ms)
  have ns: "\<forall>c\<in>set (show_nat m). \<not> is_space c" using show_nat_plain[of m] by (simp add: plain_def)
  have ne: "show_nat m \<noteq> []" using show_nat_plain[of m] by (simp add: plain_def)
  have "split_from (show_nat m @ concat (map (\<lambda>m. ''  '' @ show_nat m) ms) @ trail) [] =
        show_nat m # map show_nat ms"
    using split_from_token[OF ns, of "concat (map (\<lambda>m. ''  '' @ show_nat m) ms) @ trail" "[]"]
      Cons.IH[OF ne Cons.prems(2)] by simp
  then show ?case using Cons.prems(1) by (simp add: space_is_space)
qed

lemma replace_str_map:
  "replace_str s =
     map (\<lambda>c. if c = CHR '','' \<or> c = CHR ''('' \<or> c = CHR '')'' then CHR '' '' else c) s"
  by (simp add: replace_str_def str_replace_def)

lemma replace_str_append: "replace_str (a @ b) = replace_str a @ replace_str b"
  by (simp add: replace_str_map)

lemma replace_str_Cons:
  "replace_str (c # s) =
     (if c = CHR '','' \<or> c = CHR ''('' \<or> c = CHR '')'' then CHR '' '' else c) # replace_str s"
  by (simp add: replace_str_map)

lemma replace_str_plain: "plain t \<Longrightarrow> replace_str t = t"
  by (simp add: replace_str_map plain_def map_idI)

lemma replace_str_numbers:
  "replace_str (concat (map (\<lambda>m. '', '' @ show_nat m) ms)) =
     concat (map (\<lambda>m. ''  '' @ show_nat m) ms)"
proof (induction ms)
  case Nil
  then show ?case by (simp add: replace_str_map)
next
  case (Cons m ms)
  show ?case
    using Cons replace_str_plain[OF show_nat_plain, of m]
    by (simp add: replace_str_append replace_str_Cons)
qed

lemma replace_str_tuple_repr:
  "\<exists>trail. (\<forall>c\<in>set trail. is_space c) \<and>
     replace_str ('' '' @ tuple_repr ns @ [CHR 0x0A]) =
       concat (map (\<lambda>m. ''  '' @ show_nat m) ns) @ trail"
proof (cases ns rule: tuple_repr.cases)
  case 1
  have "replace_str ('' '' @ tuple_repr [] @ [CHR 0x0A]) = concat (map (\<lambda>m. ''  '' @ show_nat m) []) @ [CHR '' '', CHR '' '', CHR '' '', CHR 0x0A]"
    by (simp add: replace_str_map)
  moreover have "\<forall>c\<in>set [CHR '' '', CHR '' '', CHR '' '', CHR 0x0A]. is_space c"
    by (simp add: is_space_def)
  ultimately show ?thesis using 1 by blast
next
  case (2 n)
  have "replace_str ('' '' @ tuple_repr [n] @ [CHR 0x0A]) =
        concat (map (\<lambda>m. ''  '' @ show_nat m) [n]) @ [CHR '' '', CHR '' '', CHR 0x0A]"
    using replace_str_plain[OF show_nat_plain, of n]
    by (simp add: replace_str_append) (simp add: replace_str_map)
  moreover have "\<forall>c\<in>set [CHR '' '', CHR '' '', CHR 0x0A]. is_space c"
    by (simp add: is_space_def)
  ultimately show ?thesis using 2 by blast
next
  case (3 n v va)
  have "replace_str ('' '' @ tuple_repr (n # v # va) @ [CHR 0x0A]) =
        concat (map (\<lambda>m. ''  '' @ show_nat m) (n # v # va)) @ [CHR '' '', CHR 0x0A]"
    using replace_str_plain[OF show_nat_plain, of n] replace_str_numbers[of "v # va"]
    by (simp add: replace_str_append) (simp add: replace_str_map)
  moreover have "\<forall>c\<in>set [CHR '' '', CHR 0x0A]. is_space c"
    by (simp add: is_space_def)
  ultimately show ?thesis using 3 by blast
qed

lemma parse_ints_meta_line:
  assumes "plain name" "\<not> py_isdigit name"
  shows "parse_ints (replace_str (meta_line name ns)) = map int ns"
proof -
  obtain trail where tr: "\<forall>c\<in>set trail. is_space c"
    and r: "replace_str ('' '' @ tuple_repr ns @ [CHR 0x0A]) =
       concat (map (\<lambda>m. ''  '' @ show_nat m) ns) @ trail"
    using replace_str_tuple_repr by blast
  have "replace_str (meta_line name ns) = name @ concat (map (\<lambda>m. ''  '' @ show_nat m) ns) @ trail"
    using r replace_str_plain[OF assms(1)] by (simp add: meta_line_def replace_str_append)
  moreover have "\<forall>c\<in>set name. \<not> is_space c" "name \<noteq> []"
    using assms(1) by (simp_all add: plain_def)
  ultimately have "py_split (replace_str (meta_line name ns)) = name # map show_nat ns"
    using split_from_token[of name _ "[]"] split_numbers[OF _ tr, of name ns]
    by (simp add: py_split_def)
  moreover have "filter py_isdigit (map show_nat ns) = map show_nat ns"
    by (simp add: filter_id_conv show_nat_isdigit)
  ultimately show ?thesis
    using assms(2) by (simp add: parse_ints_def py_int_show_nat o_def)
qed

lemma readlines_from_line:
  "CHR 0x0A \<notin> set t \<Longrightarrow>
   readlines_from (t @ CHR 0x0A # rest) cur = (cur @ t @ [CHR 0x0A]) # readlines_from rest []"
  by (induction t arbitrary: cur) auto

lemma universal_newlines_id:
  "CHR 0x0D \<notin> set s \<Longrightarrow> universal_newlines s = s"
  by (induction s rule: universal_newlines.induct) auto

lemma readlines_concat:
  assumes "\<forall>l\<in>set ls. is_line l"
  shows "readlines (concat ls) = ls"
proof -
  have "readlines_from (concat ls) [] = ls" using assms
  proof (induction ls)
    case Nil
    then show ?case by simp
  next
    case (Cons l ls)
    from Cons.prems have l: "l \<noteq> []" "last l = CHR 0x0A" "CHR 0x0A \<notin> set (butlast l)"
      by (simp_all add: is_line_def)
    define t where "t = butlast l"
    have lt: "l = t @ [CHR 0x0A]" using l(1,2) t_def by (metis append_butlast_last_id)
    have nt: "CHR 0x0A \<notin> set t" using l(3) t_def by simp
    have ih: "readlines_from (concat ls) [] = ls" using Cons by simp
    have "readlines_from (concat (l # ls)) [] = readlines_from (t @ CHR 0x0A # concat ls) []"
      by (simp add: lt)
    also have "\<dots> = ([] @ t @ [CHR 0x0A]) # readlines_from (concat ls) []"
      by (rule readlines_from_line[OF nt])
    also have "\<dots> = l # ls" by (simp add: lt ih)
    finally show ?case .
  qed
  moreover have "CHR 0x0D \<notin> set (concat ls)"
    using assms by (auto simp: is_line_def)
  ultimately show ?thesis by (simp add: readlines_def universal_newlines_id)
qed

lemma tconv_filters_prefix:
  assumes "take 13 l = ''tconv_filters''"
  shows "take 10 l = ''tconv_filt''"
proof -
  have "take 10 l = take 10 (take 13 l)" by simp
  also have "\<dots> = take 10 ''tconv_filters''" by (simp only: assms)
  also have "\<dots> = ''tconv_filt''" by simp
  finally show ?thesis .
qed

lemma prefixes_exclusive:
  "is_fc_filters l \<Longrightarrow> \<not> is_tconv_dims l \<and> \<not> is_tconv_filters l"
  "is_tconv_dims l \<Longrightarrow> \<not> is_fc_filters l \<and> \<not> is_tconv_filters l"
  "is_tconv_filters l \<Longrightarrow> \<not> is_fc_filters l \<and> \<not> is_tconv_dims l"
  using tconv_filters_prefix[of l]
  by (auto simp: is_fc_filters_def is_tconv_dims_def is_tconv_filters_def)

lemma last_parsed_snoc:
  "last_parsed P (xs @ [x]) init =
     (if P x then Some (parse_ints (replace_str x)) else last_parsed P xs init)"
  by (cases "filter P xs") (simp_all add: last_parsed_def)

lemma foldl_read_line:
  "foldl read_line (a, b, c) ls =
     (last_parsed is_fc_filters ls a, last_parsed is_tconv_dims ls b,
      last_parsed is_tconv_filters ls c)"
proof (induction ls rule: rev_induct)
  case Nil
  then show ?case by (simp add: last_parsed_def)
next
  case (snoc x xs)
  consider "is_fc_filters x" | "is_tconv_dims x" | "is_tconv_filters x"
    | "\<not> is_fc_filters x" "\<not> is_tconv_dims x" "\<not> is_tconv_filters x"
    by blast
  then show ?case
  proof cases
    case 1
    with prefixes_exclusive(1)[OF 1] show ?thesis
      using snoc by (simp add: last_parsed_snoc) (simp add: is_fc_filters_def)
  next
    case 2
    with prefixes_exclusive(2)[OF 2] show ?thesis
      using snoc by (simp add: last_parsed_snoc) (simp add: is_fc_filters_def is_tconv_dims_def)
  next
    case 3
    with prefixes_exclusive(3)[OF 3] show ?thesis
      using snoc by (simp add: last_parsed_snoc)
        (simp add: is_fc_filters_def is_tconv_dims_def is_tconv_filters_def)
  next
    case 4
    then show ?thesis
      using snoc by (simp add: last_parsed_snoc)
        (simp add: is_fc_filters_def is_tconv_dims_def is_tconv_filters_def)
  qed
qed

lemma attribute_names_plain:
  "plain ''fc_filters''" "\<not> py_isdigit ''fc_filters''"
  "plain ''tconv_dims''" "\<not> py_isdigit ''tconv_dims''"
  "plain ''tconv_filters''" "\<not> py_isdigit ''tconv_filters''"
  by (simp_all add: plain_def is_space_def py_isdigit_def is_digit_def)

text \<open>
  Claim C7. The metadata parser inverts the writing of the file: for a metadata file in
  which exactly one line starts with each of the three attribute names, that line being
  the name followed by the integers in parentheses, separated by commas, \<open>get_parameters\<close>
  returns exactly the three tuples written, whatever the order of the lines and whatever
  the other lines are. The lines of the file are the lines that \<open>readlines\<close> returns.
  The file of the lines \<open>fc_filters (4, 8, 16)\<close>, \<open>tconv_dims (32, 64)\<close> and
  \<open>tconv_filters (8, 4)\<close> is the first witness below.
\<close>

theorem get_parameters_round_trip:
  assumes "filter is_fc_filters (readlines content) = [meta_line ''fc_filters'' fc]"
    and "filter is_tconv_dims (readlines content) = [meta_line ''tconv_dims'' td]"
    and "filter is_tconv_filters (readlines content) = [meta_line ''tconv_filters'' tf]"
  shows "get_parameters content = Inr (map int fc, map int td, map int tf)"
proof -
  have "foldl read_line (None, None, None) (readlines content) =
      (Some (parse_ints (replace_str (meta_line ''fc_filters'' fc))),
       Some (parse_ints (replace_str (meta_line ''tconv_dims'' td))),
       Some (parse_ints (replace_str (meta_line ''tconv_filters'' tf))))"
    by (simp add: foldl_read_line last_parsed_def assms)
  then show ?thesis
    by (simp add: get_parameters_def parse_ints_meta_line attribute_names_plain)
qed

theorem get_parameters_round_trip_witness:
  "readlines (''fc_filters (4, 8, 16)'' @ [CHR 0x0A] @ ''tconv_dims (32, 64)'' @ [CHR 0x0A]
         @ ''tconv_filters (8, 4)'' @ [CHR 0x0A]) =
     [meta_line ''fc_filters'' [4, 8, 16], meta_line ''tconv_dims'' [32, 64],
      meta_line ''tconv_filters'' [8, 4]]
   \<and> filter is_fc_filters (readlines (''fc_filters (4, 8, 16)'' @ [CHR 0x0A]
         @ ''tconv_dims (32, 64)'' @ [CHR 0x0A] @ ''tconv_filters (8, 4)'' @ [CHR 0x0A])) =
       [meta_line ''fc_filters'' [4, 8, 16]]
   \<and> filter is_tconv_dims (readlines (''fc_filters (4, 8, 16)'' @ [CHR 0x0A]
         @ ''tconv_dims (32, 64)'' @ [CHR 0x0A] @ ''tconv_filters (8, 4)'' @ [CHR 0x0A])) =
       [meta_line ''tconv_dims'' [32, 64]]
   \<and> filter is_tconv_filters (readlines (''fc_filters (4, 8, 16)'' @ [CHR 0x0A]
         @ ''tconv_dims (32, 64)'' @ [CHR 0x0A] @ ''tconv_filters (8, 4)'' @ [CHR 0x0A])) =
       [meta_line ''tconv_filters'' [8, 4]]
   \<and> get_parameters (''fc_filters (4, 8, 16)'' @ [CHR 0x0A] @ ''tconv_dims (32, 64)'' @ [CHR 0x0A]
         @ ''tconv_filters (8, 4)'' @ [CHR 0x0A]) =
       Inr ([4, 8, 16], [32, 64], [8, 4])
   \<and> readlines (''junk'' @ [CHR 0x0D] @ ''fc_filters (9,)'' @ [CHR 0x0A]
         @ ''tconv_filters (8, 4)'' @ [CHR 0x0D, CHR 0x0A] @ ''tconv_dims ()'') =
     [''junk'' @ [CHR 0x0A], meta_line ''fc_filters'' [9], meta_line ''tconv_filters'' [8, 4],
      ''tconv_dims ()'']
   \<and> get_parameters (''junk'' @ [CHR 0x0D] @ ''fc_filters (9,)'' @ [CHR 0x0A]
         @ ''tconv_filters (8, 4)'' @ [CHR 0x0D, CHR 0x0A] @ ''tconv_dims ()'' @ [CHR 0x0A]) =
       Inr ([9], [], [8, 4])"
proof -
  let ?c1 = "''fc_filters (4, 8, 16)'' @ [CHR 0x0A] @ ''tconv_dims (32, 64)'' @ [CHR 0x0A]
         @ ''tconv_filters (8, 4)'' @ [CHR 0x0A]"
  let ?c2 = "''junk'' @ [CHR 0x0D] @ ''fc_filters (9,)'' @ [CHR 0x0A]
         @ ''tconv_filters (8, 4)'' @ [CHR 0x0D, CHR 0x0A] @ ''tconv_dims ()''"
  let ?c3 = "''junk'' @ [CHR 0x0D] @ ''fc_filters (9,)'' @ [CHR 0x0A]
         @ ''tconv_filters (8, 4)'' @ [CHR 0x0D, CHR 0x0A] @ ''tconv_dims ()'' @ [CHR 0x0A]"
  have r1: "readlines ?c1 =
     [meta_line ''fc_filters'' [4, 8, 16], meta_line ''tconv_dims'' [32, 64],
      meta_line ''tconv_filters'' [8, 4]]"
    by (simp add: readlines_def meta_line_def show_nat.simps digit_char_def)
  have r2: "readlines ?c2 =
     [''junk'' @ [CHR 0x0A], meta_line ''fc_filters'' [9], meta_line ''tconv_filters'' [8, 4],
      ''tconv_dims ()'']"
    by (simp add: readlines_def meta_line_def show_nat.simps digit_char_def)
  have r3: "readlines ?c3 =
     [''junk'' @ [CHR 0x0A], meta_line ''fc_filters'' [9], meta_line ''tconv_filters'' [8, 4],
      meta_line ''tconv_dims'' []]"
    by (simp add: readlines_def meta_line_def show_nat.simps digit_char_def)
  have p: "is_fc_filters (meta_line ''fc_filters'' ns)" "\<not> is_tconv_dims (meta_line ''fc_filters'' ns)"
    "\<not> is_tconv_filters (meta_line ''fc_filters'' ns)"
    "is_tconv_dims (meta_line ''tconv_dims'' ns)" "\<not> is_fc_filters (meta_line ''tconv_dims'' ns)"
    "\<not> is_tconv_filters (meta_line ''tconv_dims'' ns)"
    "is_tconv_filters (meta_line ''tconv_filters'' ns)" "\<not> is_fc_filters (meta_line ''tconv_filters'' ns)"
    "\<not> is_tconv_dims (meta_line ''tconv_filters'' ns)" for ns
    by (simp_all add: meta_line_def is_fc_filters_def is_tconv_dims_def is_tconv_filters_def)
  have j: "\<not> is_fc_filters (''junk'' @ [CHR 0x0A])" "\<not> is_tconv_dims (''junk'' @ [CHR 0x0A])"
    "\<not> is_tconv_filters (''junk'' @ [CHR 0x0A])"
    by (simp_all add: is_fc_filters_def is_tconv_dims_def is_tconv_filters_def)
  note j' = j[simplified]
  have f1: "filter is_fc_filters (readlines ?c1) = [meta_line ''fc_filters'' [4, 8, 16]]"
    and f2: "filter is_tconv_dims (readlines ?c1) = [meta_line ''tconv_dims'' [32, 64]]"
    and f3: "filter is_tconv_filters (readlines ?c1) = [meta_line ''tconv_filters'' [8, 4]]"
    unfolding r1 by (simp_all add: p)
  have g1: "get_parameters (''fc_filters (4, 8, 16)'' @ [CHR 0x0A] @ ''tconv_dims (32, 64)'' @ [CHR 0x0A]
         @ ''tconv_filters (8, 4)'' @ [CHR 0x0A]) = Inr ([4, 8, 16], [32, 64], [8, 4])"
    using get_parameters_round_trip[OF f1 f2 f3] by simp
  have h1: "filter is_fc_filters (readlines ?c3) = [meta_line ''fc_filters'' [9]]"
    and h2: "filter is_tconv_dims (readlines ?c3) = [meta_line ''tconv_dims'' []]"
    and h3: "filter is_tconv_filters (readlines ?c3) = [meta_line ''tconv_filters'' [8, 4]]"
    unfolding r3 by (simp_all add: p j')
  have g3: "get_parameters (''junk'' @ [CHR 0x0D] @ ''fc_filters (9,)'' @ [CHR 0x0A]
         @ ''tconv_filters (8, 4)'' @ [CHR 0x0D, CHR 0x0A] @ ''tconv_dims ()'' @ [CHR 0x0A]) =
       Inr ([9], [], [8, 4])"
    using get_parameters_round_trip[OF h1 h2 h3] by simp
  show ?thesis
    by (intro conjI) (fact r1, fact f1, fact f2, fact f3, fact g1, fact r2, fact g3)
qed

end
